theory Spec2Isabelle
  imports Complex_Main
begin

section \<open>Data model\<close>

text \<open>
  The hydro tasks of \<^verbatim>\<open>apps/maire_hydro/tasks.h\<close> are templates over a mesh type
  \<open>T\<close>.  The scalar type \<open>real_t\<close> is taken as the field of real numbers, so that
  every arithmetic expression of the source is read exactly (no rounding, no
  infinities).  A \<open>vector_t\<close> is the list of its \<open>num_dimensions\<close> components, a
  \<open>matrix_t\<close> the list of its rows.  Mesh entities (cells, vertices, corners, wedges,
  faces) are referred to by their ids, and a dense field over an entity kind is a
  function from ids to values.
\<close>

type_synonym real_t = real
type_synonym vector_t = "real_t list"
type_synonym matrix_t = "real_t list list"
type_synonym id_t = nat
type_synonym tag_t = nat

text \<open>
  Modelled from the spec: \<^verbatim>\<open>flux_data_t\<close> (ale/eqns/lagrange_eqns.h) is not
  under src/.  The cell residual holds the four rates of section 4.6:
  dM/dt, d(Mu)/dt, d(ME)/dt and dV/dt.
\<close>

record flux_data_t =
  mass_rate :: real_t
  momentum_rate :: vector_t
  energy_rate :: real_t
  volume_rate :: real_t

text \<open>\<^verbatim>\<open>struct time_constants_t\<close> of types.h.\<close>

record time_constants_t =
  accoustic :: real_t
  volume :: real_t
  growth :: real_t

text \<open>
  Modelled from the spec: the accessors \<^verbatim>\<open>eqns_t::density\<close>, \<^verbatim>\<open>eqns_t::velocity\<close>,
  \<^verbatim>\<open>eqns_t::pressure\<close> and \<^verbatim>\<open>eqns_t::sound_speed\<close> (ale/eqns/lagrange_eqns.h) are
  not under src/.  They return the component of that name of the cell state tuple
  built by \<^verbatim>\<open>cell_state_accessor\<close> (section 4.5: the cell state
  \<open>(\<rho>, u, p, c)\<close>); the model reads the corresponding cell field.
\<close>

text \<open>
  The mesh object: the topology queries the tasks use (\<^verbatim>\<open>mesh.cells()\<close>,
  \<^verbatim>\<open>mesh.cells(v)\<close>, \<^verbatim>\<open>mesh.wedges(cn)\<close>, \<^verbatim>\<open>vt->tags()\<close>, ...), the vertex
  coordinates, the globals and the dense fields reached through
  \<^verbatim>\<open>get_accessor\<close> and \<^verbatim>\<open>cell_state_accessor\<close>.  The two versions of
  \<^verbatim>\<open>cell_velocity\<close> and \<^verbatim>\<open>cell_internal_energy\<close> are separate fields.
\<close>

record mesh =
  num_dimensions :: nat
  cells :: "id_t list"
  vertices :: "id_t list"
  corners :: "id_t list"
  cells_of_vertex :: "id_t \<Rightarrow> id_t list"
  corners_of_vertex :: "id_t \<Rightarrow> id_t list"
  wedges_of_vertex :: "id_t \<Rightarrow> id_t list"
  corners_of_cell :: "id_t \<Rightarrow> id_t list"
  cells_of_corner :: "id_t \<Rightarrow> id_t list"
  vertices_of_corner :: "id_t \<Rightarrow> id_t list"
  vertices_of_edge :: "id_t \<Rightarrow> id_t list"
  wedges_of_corner :: "id_t \<Rightarrow> id_t list"
  faces_of_wedge :: "id_t \<Rightarrow> id_t list"
  cells_of_wedge :: "id_t \<Rightarrow> id_t list"
  vertex_is_boundary :: "id_t \<Rightarrow> bool"
  wedge_is_boundary :: "id_t \<Rightarrow> bool"
  vertex_tags :: "id_t \<Rightarrow> tag_t list"
  face_tags :: "id_t \<Rightarrow> tag_t list"
  coordinates :: "id_t \<Rightarrow> vector_t"
  time :: real_t
  time_step :: real_t
  cfl :: time_constants_t
  cell_mass :: "id_t \<Rightarrow> real_t"
  cell_volume :: "id_t \<Rightarrow> real_t"
  cell_pressure :: "id_t \<Rightarrow> real_t"
  cell_velocity :: "id_t \<Rightarrow> vector_t"
  cell_density :: "id_t \<Rightarrow> real_t"
  cell_internal_energy :: "id_t \<Rightarrow> real_t"
  cell_temperature :: "id_t \<Rightarrow> real_t"
  cell_sound_speed :: "id_t \<Rightarrow> real_t"
  cell_velocity_1 :: "id_t \<Rightarrow> vector_t"
  cell_internal_energy_1 :: "id_t \<Rightarrow> real_t"
  cell_residual :: "id_t \<Rightarrow> flux_data_t"
  cell_min_length :: "id_t \<Rightarrow> real_t"
  cell_centroid :: "id_t \<Rightarrow> vector_t"
  node_velocity :: "id_t \<Rightarrow> vector_t"
  node_coordinates :: "id_t \<Rightarrow> vector_t"
  corner_matrix :: "id_t \<Rightarrow> matrix_t"
  corner_normal :: "id_t \<Rightarrow> vector_t"
  wedge_facet_normal :: "id_t \<Rightarrow> vector_t"
  wedge_facet_area :: "id_t \<Rightarrow> real_t"
  wedge_facet_centroid :: "id_t \<Rightarrow> vector_t"

section \<open>Mesh motion and the saved coordinates\<close>

text \<open>
  Modelled from the spec: \<^verbatim>\<open>mesh.update_geometry()\<close> (the burton mesh) is not under
  src/.  By section 4.2 it recomputes the cached geometry from the current
  coordinates: cell volume, centroid and minimum length, and the wedge facet normal,
  area and centroid.  The shape-specific kernels are parameters; each may read the
  whole mesh.
\<close>

record geometry_kernels =
  volume_kernel :: "mesh \<Rightarrow> id_t \<Rightarrow> real_t"
  centroid_kernel :: "mesh \<Rightarrow> id_t \<Rightarrow> vector_t"
  min_length_kernel :: "mesh \<Rightarrow> id_t \<Rightarrow> real_t"
  facet_normal_kernel :: "mesh \<Rightarrow> id_t \<Rightarrow> vector_t"
  facet_area_kernel :: "mesh \<Rightarrow> id_t \<Rightarrow> real_t"
  facet_centroid_kernel :: "mesh \<Rightarrow> id_t \<Rightarrow> vector_t"

definition update_geometry :: "geometry_kernels \<Rightarrow> mesh \<Rightarrow> mesh" where
  "update_geometry G m =
     m\<lparr> cell_volume := volume_kernel G m,
        cell_centroid := centroid_kernel G m,
        cell_min_length := min_length_kernel G m,
        wedge_facet_normal := facet_normal_kernel G m,
        wedge_facet_area := facet_area_kernel G m,
        wedge_facet_centroid := facet_centroid_kernel G m \<rparr>"

text \<open>
  \<^verbatim>\<open>save_coordinates\<close>: for each vertex of \<^verbatim>\<open>mesh.vertices()\<close>,
  \<^verbatim>\<open>coord0[vt] = vt->coordinates()\<close>.  The OpenMP loops of the tasks are run in
  the order of the entity list.
\<close>

definition save_coordinates :: "mesh \<Rightarrow> mesh" where
  "save_coordinates m =
     fold (\<lambda>vt s. s\<lparr> node_coordinates := (node_coordinates s)(vt := coordinates s vt) \<rparr>)
       (vertices m) m"

text \<open>
  \<^verbatim>\<open>move_mesh\<close>: \<^verbatim>\<open>fact = coef * (*delta_t)\<close> (here \<open>factor\<close>); for each vertex and each
  \<^verbatim>\<open>d < num_dimensions\<close>, \<^verbatim>\<open>vt->coordinates()[d] += fact * vel[vt][d]\<close>; then the
  geometry is updated.
\<close>

definition move_vertex :: "real_t \<Rightarrow> id_t \<Rightarrow> mesh \<Rightarrow> mesh" where
  "move_vertex factor vt m =
     fold (\<lambda>d s. s\<lparr> coordinates := (coordinates s)
                  (vt := (coordinates s vt)[d := coordinates s vt ! d + factor * node_velocity s vt ! d]) \<rparr>)
       [0..<num_dimensions m] m"

definition move_mesh :: "geometry_kernels \<Rightarrow> real_t \<Rightarrow> mesh \<Rightarrow> mesh" where
  "move_mesh G coef m =
     (let factor = coef * time_step m
      in update_geometry G (fold (move_vertex factor) (vertices m) m))"

text \<open>\<^verbatim>\<open>restore_coordinates\<close>: for each vertex, \<^verbatim>\<open>vt->coordinates() = coord0[vt]\<close>.\<close>

definition restore_coordinates :: "mesh \<Rightarrow> mesh" where
  "restore_coordinates m =
     fold (\<lambda>vt s. s\<lparr> coordinates := (coordinates s)(vt := node_coordinates s vt) \<rparr>)
       (vertices m) m"

section \<open>Saving and restoring the solution\<close>

text \<open>
  \<^verbatim>\<open>save_solution\<close>: for each cell, \<^verbatim>\<open>vel0[c] = vel[c]; ener0[c] = ener[c]\<close>, where
  \<^verbatim>\<open>vel0\<close>, \<^verbatim>\<open>ener0\<close> are version 1 of the cell velocity and internal energy.
\<close>

definition save_solution :: "mesh \<Rightarrow> mesh" where
  "save_solution m =
     fold (\<lambda>c s. s\<lparr> cell_velocity_1 := (cell_velocity_1 s)(c := cell_velocity s c),
                    cell_internal_energy_1 := (cell_internal_energy_1 s)(c := cell_internal_energy s c) \<rparr>)
       (cells m) m"

text \<open>\<^verbatim>\<open>restore_solution\<close>: for each cell, \<^verbatim>\<open>vel[c] = vel0[c]; ener[c] = ener0[c]\<close>.\<close>

definition restore_solution :: "mesh \<Rightarrow> mesh" where
  "restore_solution m =
     fold (\<lambda>c s. s\<lparr> cell_velocity := (cell_velocity s)(c := cell_velocity_1 s c),
                    cell_internal_energy := (cell_internal_energy s)(c := cell_internal_energy_1 s c) \<rparr>)
       (cells m) m"

section \<open>A first estimate of the nodal velocity\<close>

text \<open>
  Modelled from the spec: the operators of \<^verbatim>\<open>math::vector\<close> (ale/math) are not
  under src/.  The spec has the velocities as D-vectors, so the operators act on the
  \<open>num_dimensions\<close> components: assignment of a scalar fills the vector, \<^verbatim>\<open>+=\<close>
  adds componentwise, \<^verbatim>\<open>/=\<close> by a scalar divides each component.
\<close>

definition vector_fill :: "nat \<Rightarrow> real_t \<Rightarrow> vector_t" where
  "vector_fill D x = map (\<lambda>d. x) [0..<D]"

definition vector_add :: "nat \<Rightarrow> vector_t \<Rightarrow> vector_t \<Rightarrow> vector_t" where
  "vector_add D a b = map (\<lambda>d. a ! d + b ! d) [0..<D]"

definition vector_div :: "nat \<Rightarrow> vector_t \<Rightarrow> real_t \<Rightarrow> vector_t" where
  "vector_div D a x = map (\<lambda>d. a ! d / x) [0..<D]"

text \<open>
  \<^verbatim>\<open>estimate_nodal_state\<close>: for each vertex, \<^verbatim>\<open>vertex_vel[v] = 0.\<close>, then
  \<^verbatim>\<open>vertex_vel[v] += cell_vel[c]\<close> for each cell of \<^verbatim>\<open>mesh.cells(v)\<close>, then
  \<^verbatim>\<open>vertex_vel[v] /= cells.size()\<close>.  The division of the source is a
  floating-point division, which does not trap when the vertex has no cell; here it
  is the division of the reals.
\<close>

definition estimate_vertex :: "id_t \<Rightarrow> mesh \<Rightarrow> mesh" where
  "estimate_vertex v m =
     (let D = num_dimensions m;
          m1 = m\<lparr> node_velocity := (node_velocity m)(v := vector_fill D 0) \<rparr>;
          cs = cells_of_vertex m1 v;
          m2 = fold (\<lambda>c s. s\<lparr> node_velocity := (node_velocity s)
                        (v := vector_add D (node_velocity s v) (cell_velocity s c)) \<rparr>) cs m1
      in m2\<lparr> node_velocity := (node_velocity m2)
               (v := vector_div D (node_velocity m2 v) (real (length cs))) \<rparr>)"

definition estimate_nodal_state :: "mesh \<Rightarrow> mesh" where
  "estimate_nodal_state m = fold estimate_vertex (vertices m) m"

section \<open>Failures\<close>

text \<open>
  What stops a task: \<^verbatim>\<open>front()\<close> of an empty entity range (undefined in the
  source, a failure here), \<^verbatim>\<open>boundary_map.at\<close> on a tag that is not a key, a failed
  \<^verbatim>\<open>assert\<close>, and \<^verbatim>\<open>raise_runtime_error\<close>.
\<close>

datatype error = EmptyRange | OutOfRange | AssertionFailed string | RuntimeError string

definition front :: "'a list \<Rightarrow> error + 'a" where
  "front xs = (case xs of [] \<Rightarrow> Inl EmptyRange | x # _ \<Rightarrow> Inr x)"

definition bind_result :: "error + 'a \<Rightarrow> ('a \<Rightarrow> error + 'b) \<Rightarrow> error + 'b" where
  "bind_result r f = (case r of Inl e \<Rightarrow> Inl e | Inr x \<Rightarrow> f x)"

text \<open>A loop over an entity range whose body may fail: the first failure ends it.\<close>

fun for_each :: "'a list \<Rightarrow> ('a \<Rightarrow> 's \<Rightarrow> error + 's) \<Rightarrow> 's \<Rightarrow> error + 's" where
  "for_each [] f s = Inr s"
| "for_each (x # xs) f s = (case f x s of Inl e \<Rightarrow> Inl e | Inr s' \<Rightarrow> for_each xs f s')"

section \<open>Edge length\<close>

text \<open>
  Modelled from the spec: \<^verbatim>\<open>math::sqr\<close> (ale/math/math.h) is not under src/.  It
  squares its argument (section 4.2: the edge length is the standard closed form).
\<close>

definition sqr :: "real_t \<Rightarrow> real_t" where
  "sqr x = x * x"

text \<open>
  \<^verbatim>\<open>burton_2d_edge_t::length\<close>: with \<^verbatim>\<open>a\<close>, \<^verbatim>\<open>b\<close> the coordinates of the
  edge's vertices \<^verbatim>\<open>vs[0]\<close>, \<^verbatim>\<open>vs[1]\<close>, it returns
  \<^verbatim>\<open>std::sqrt( sqr(a[0]-b[0]) + sqr(a[1]-b[1]) )\<close>.
\<close>

definition burton_2d_edge_length :: "mesh \<Rightarrow> id_t \<Rightarrow> error + real_t" where
  "burton_2d_edge_length m e =
     (case vertices_of_edge m e of
        v0 # v1 # _ \<Rightarrow>
          (let a = coordinates m v0; b = coordinates m v1
           in Inr (sqrt (sqr (a ! 0 - b ! 0) + sqr (a ! 1 - b ! 1))))
      | _ \<Rightarrow> Inl EmptyRange)"

text \<open>
  \<^verbatim>\<open>burton_3d_edge_t::length\<close>: the body is the same expression,
  \<^verbatim>\<open>std::sqrt( sqr(a[0]-b[0]) + sqr(a[1]-b[1]) )\<close>, on the vertices of a 3d mesh.
\<close>

definition burton_3d_edge_length :: "mesh \<Rightarrow> id_t \<Rightarrow> error + real_t" where
  "burton_3d_edge_length m e =
     (case vertices_of_edge m e of
        v0 # v1 # _ \<Rightarrow>
          (let a = coordinates m v0; b = coordinates m v1
           in Inr (sqrt (sqr (a ! 0 - b ! 0) + sqr (a ! 1 - b ! 1))))
      | _ \<Rightarrow> Inl EmptyRange)"

section \<open>Time step control\<close>

text \<open>
  Modelled from the spec: \<^verbatim>\<open>eqns_t::volumetric_rate_of_change\<close>
  (ale/eqns/lagrange_eqns.h) is not under src/.  It reads dV/dt from a cell residual.
\<close>

definition volumetric_rate_of_change :: "flux_data_t \<Rightarrow> real_t" where
  "volumetric_rate_of_change dudt = volume_rate dudt"

text \<open>
  The body of the cell loop of \<^verbatim>\<open>evaluate_time_step\<close>, on the pair of running
  maxima \<^verbatim>\<open>(dt_acc_inv, dt_vol_inv)\<close>, both started at 0.
\<close>

definition time_step_cell :: "mesh \<Rightarrow> id_t \<Rightarrow> real_t \<times> real_t \<Rightarrow> real_t \<times> real_t" where
  "time_step_cell m c = (\<lambda>(dt_acc_inv, dt_vol_inv).
     let dti = cell_sound_speed m c / cell_min_length m c / accoustic (cfl m);
         dt_acc_inv = max dti dt_acc_inv;
         dVdt = volumetric_rate_of_change (cell_residual m c);
         dti = \<bar>dVdt\<bar> / cell_volume m c / volume (cfl m);
         dt_vol_inv = max dti dt_vol_inv
     in (dt_acc_inv, dt_vol_inv))"

definition time_step_inverses :: "mesh \<Rightarrow> id_t list \<Rightarrow> real_t \<times> real_t" where
  "time_step_inverses m cs = fold (time_step_cell m) cs (0, 0)"

definition dt_acc_inv :: "mesh \<Rightarrow> real_t" where
  "dt_acc_inv m = fst (time_step_inverses m (cells m))"

definition dt_vol_inv :: "mesh \<Rightarrow> real_t" where
  "dt_vol_inv m = snd (time_step_inverses m (cells m))"

text \<open>The three limits, named as the local variables of the source.\<close>

definition dt_acc :: "mesh \<Rightarrow> real_t" where
  "dt_acc m = accoustic (cfl m) / dt_acc_inv m"

definition dt_vol :: "mesh \<Rightarrow> real_t" where
  "dt_vol m = volume (cfl m) / dt_vol_inv m"

definition dt_growth :: "mesh \<Rightarrow> real_t" where
  "dt_growth m = growth (cfl m) * time_step m"

text \<open>\<^verbatim>\<open>std::min_element\<close>: the position of the first smallest element.\<close>

definition min_element :: "real_t list \<Rightarrow> nat" where
  "min_element xs =
     fold (\<lambda>i smallest. if xs ! i < xs ! smallest then i else smallest) [1..<length xs] 0"

text \<open>
  \<^verbatim>\<open>evaluate_time_step\<close> returns the mesh with the new \<^verbatim>\<open>time_step\<close> and the
  \<^verbatim>\<open>limit_string\<close>.  The assertion
  \<^verbatim>\<open>assert( dt_acc_inv > 0 && dt_vol_inv > 0 && "infinite delta t" )\<close> of the source
  stands between the cell loop and the divisions, and is kept as written (a build with
  \<^verbatim>\<open>NDEBUG\<close> compiles it out and divides by zero).  The divisions of the cell loop are
  those of the reals: they are faithful to the source for cells of nonzero minimum
  length and volume and nonzero constants.
\<close>

definition evaluate_time_step :: "mesh \<Rightarrow> error + (mesh \<times> string)" where
  "evaluate_time_step m =
     (if \<not> (dt_acc_inv m > 0 \<and> dt_vol_inv m > 0) then Inl (AssertionFailed ''infinite delta t'')
      else
        let dts = [dt_acc m, dt_vol m, dt_growth m];
            it = min_element dts
        in if it = 0 then Inr (m\<lparr> time_step := dts ! it \<rparr>, ''accoustic'')
           else if it = 1 then Inr (m\<lparr> time_step := dts ! it \<rparr>, ''volume'')
           else if it = 2 then Inr (m\<lparr> time_step := dts ! it \<rparr>, ''growth'')
           else Inl (RuntimeError ''could not determine time step limit''))"

section \<open>Corner coefficients\<close>

text \<open>
  Modelled from the spec: \<^verbatim>\<open>math::outer_product\<close>, \<^verbatim>\<open>ax_plus_y\<close> and the operators
  of \<^verbatim>\<open>math::matrix\<close> (ale/math) are not under src/.  Assigning a scalar fills the
  matrix and \<^verbatim>\<open>+=\<close> adds entry by entry.  By section 4.5 the corner matrix is the sum over the wedges of
  \<open>z l (n \<otimes> n)\<close>, so \<^verbatim>\<open>outer_product( a, b, C, fact )\<close> adds \<open>fact a\<^sub>i b\<^sub>j\<close> to
  \<open>C\<^sub>i\<^sub>j\<close>; \<^verbatim>\<open>ax_plus_y( A, x, y )\<close> adds the product \<open>A x\<close> to \<open>y\<close>.
\<close>

definition matrix_fill :: "nat \<Rightarrow> real_t \<Rightarrow> matrix_t" where
  "matrix_fill D x = map (\<lambda>i. map (\<lambda>j. x) [0..<D]) [0..<D]"

definition matrix_add :: "nat \<Rightarrow> matrix_t \<Rightarrow> matrix_t \<Rightarrow> matrix_t" where
  "matrix_add D A B = map (\<lambda>i. map (\<lambda>j. A ! i ! j + B ! i ! j) [0..<D]) [0..<D]"

definition outer_product :: "nat \<Rightarrow> vector_t \<Rightarrow> vector_t \<Rightarrow> matrix_t \<Rightarrow> real_t \<Rightarrow> matrix_t" where
  "outer_product D a b C factor =
     map (\<lambda>i. map (\<lambda>j. C ! i ! j + factor * a ! i * b ! j) [0..<D]) [0..<D]"

definition ax_plus_y :: "nat \<Rightarrow> matrix_t \<Rightarrow> vector_t \<Rightarrow> vector_t \<Rightarrow> vector_t" where
  "ax_plus_y D A x y = map (\<lambda>i. y ! i + (\<Sum>j\<leftarrow>[0..<D]. A ! i ! j * x ! j)) [0..<D]"

text \<open>
  The wedge loop of \<^verbatim>\<open>evaluate_corner_coef\<close>:
  \<^verbatim>\<open>math::outer_product( n, n, Mpc[cn], zc*l )\<close>, then
  \<^verbatim>\<open>npc[cn][d] += l * n[d]\<close> for every \<^verbatim>\<open>d\<close>.
\<close>

definition corner_coef_wedge :: "real_t \<Rightarrow> id_t \<Rightarrow> id_t \<Rightarrow> mesh \<Rightarrow> mesh" where
  "corner_coef_wedge zc cn w m =
     (let D = num_dimensions m;
          n = wedge_facet_normal m w;
          l = wedge_facet_area m w;
          m1 = m\<lparr> corner_matrix := (corner_matrix m)
                  (cn := outer_product D n n (corner_matrix m cn) (zc * l)) \<rparr>
      in m1\<lparr> corner_normal := (corner_normal m1)
               (cn := map (\<lambda>d. corner_normal m1 cn ! d + l * n ! d) [0..<D]) \<rparr>)"

text \<open>
  The body of the corner loop: \<^verbatim>\<open>Mpc[cn] = 0; npc[cn] = 0\<close>, the cell and the vertex
  of the corner, the cell's density \<^verbatim>\<open>dc\<close> and sound speed \<^verbatim>\<open>ac\<close> (the accessors of
  \<^verbatim>\<open>eqns_t\<close> read the component of that name of the cell state),
  \<^verbatim>\<open>zc = dc * ac\<close>, and the wedge loop.  The velocities \<^verbatim>\<open>uc\<close>, \<^verbatim>\<open>uv\<close> and the
  multiplier \<^verbatim>\<open>Gc\<close> are read by the source and used in comments only.
\<close>

definition corner_coef :: "id_t \<Rightarrow> mesh \<Rightarrow> error + mesh" where
  "corner_coef cn m =
     (let D = num_dimensions m;
          m1 = m\<lparr> corner_matrix := (corner_matrix m)(cn := matrix_fill D 0),
                  corner_normal := (corner_normal m)(cn := vector_fill D 0) \<rparr>
      in bind_result (front (cells_of_corner m1 cn)) (\<lambda>cl.
         bind_result (front (vertices_of_corner m1 cn)) (\<lambda>vt.
           let dc = cell_density m1 cl;
               ac = cell_sound_speed m1 cl;
               zc = dc * ac
           in Inr (fold (corner_coef_wedge zc cn) (wedges_of_corner m1 cn) m1))))"

definition evaluate_corner_coef :: "mesh \<Rightarrow> error + mesh" where
  "evaluate_corner_coef m = for_each (corners m) corner_coef m"

section \<open>Subcell forces\<close>

text \<open>
  Modelled from the spec: \<^verbatim>\<open>eqns_t::compute_update\<close> (ale/eqns/lagrange_eqns.h) is
  not under src/.  By section 4.6 a corner with force \<open>F\<close>, corner normal \<open>N\<close> and
  nodal velocity \<open>u\<close> contributes \<open>- F\<close> to d(Mu)/dt, \<open>- F \<cdot> u\<close> to d(ME)/dt and
  \<open>N \<cdot> u\<close> to dV/dt; dM/dt stays 0.
\<close>

definition dot_product :: "nat \<Rightarrow> vector_t \<Rightarrow> vector_t \<Rightarrow> real_t" where
  "dot_product D a b = (\<Sum>d\<leftarrow>[0..<D]. a ! d * b ! d)"

definition compute_update :: "nat \<Rightarrow> vector_t \<Rightarrow> vector_t \<Rightarrow> vector_t \<Rightarrow> flux_data_t \<Rightarrow> flux_data_t" where
  "compute_update D u force n dudt =
     dudt\<lparr> momentum_rate := map (\<lambda>d. momentum_rate dudt ! d - force ! d) [0..<D],
           energy_rate := energy_rate dudt - dot_product D force u,
           volume_rate := volume_rate dudt + dot_product D n u \<rparr>"

definition zero_flux :: "nat \<Rightarrow> flux_data_t" where
  "zero_flux D = \<lparr> mass_rate = 0, momentum_rate = vector_fill D 0, energy_rate = 0, volume_rate = 0 \<rparr>"

text \<open>
  The subcell force of \<^verbatim>\<open>evaluate_forces\<close>: \<^verbatim>\<open>force[d] = pc * npc[cn][d]\<close> and
  \<^verbatim>\<open>delta_u[d] = uc[d] - uv[pt][d]\<close> for every \<^verbatim>\<open>d\<close>, then
  \<^verbatim>\<open>ax_plus_y( Mpc[cn], delta_u, force )\<close>.
\<close>

definition subcell_force :: "mesh \<Rightarrow> id_t \<Rightarrow> id_t \<Rightarrow> id_t \<Rightarrow> vector_t" where
  "subcell_force m cl cn pt =
     (let D = num_dimensions m;
          pc = cell_pressure m cl;
          uc = cell_velocity m cl;
          force = map (\<lambda>d. pc * corner_normal m cn ! d) [0..<D];
          delta_u = map (\<lambda>d. uc ! d - node_velocity m pt ! d) [0..<D]
      in ax_plus_y D (corner_matrix m cn) delta_u force)"

definition force_corner :: "id_t \<Rightarrow> id_t \<Rightarrow> mesh \<Rightarrow> error + mesh" where
  "force_corner cl cn m =
     bind_result (front (vertices_of_corner m cn)) (\<lambda>pt.
       Inr (m\<lparr> cell_residual := (cell_residual m)
              (cl := compute_update (num_dimensions m) (node_velocity m pt)
                       (subcell_force m cl cn pt) (corner_normal m cn) (cell_residual m cl)) \<rparr>))"

definition force_cell :: "id_t \<Rightarrow> mesh \<Rightarrow> error + mesh" where
  "force_cell cl m =
     for_each (corners_of_cell m cl) (force_corner cl)
       (m\<lparr> cell_residual := (cell_residual m)(cl := zero_flux (num_dimensions m)) \<rparr>)"

definition evaluate_forces :: "mesh \<Rightarrow> error + mesh" where
  "evaluate_forces m = for_each (cells m) force_cell m"

section \<open>The nodal solver\<close>

text \<open>
  \<^verbatim>\<open>boundary_condition_t\<close> of types.h: three virtual predicates and the two
  callbacks.  An object of the class or of a class derived from it is the record of
  what its five member functions return.  The boundary map is a \<^verbatim>\<open>std::map\<close> from
  tags to conditions; \<^verbatim>\<open>boundary_map.at\<close> (here \<open>map_at\<close>) throws on a tag that is not a key.
\<close>

record boundary_condition_t =
  has_prescribed_velocity :: bool
  has_prescribed_pressure :: bool
  has_symmetry :: bool
  velocity :: "vector_t \<Rightarrow> real_t \<Rightarrow> vector_t"
  pressure :: "vector_t \<Rightarrow> real_t \<Rightarrow> real_t"

type_synonym boundary_map_t = "tag_t \<rightharpoonup> boundary_condition_t"

definition map_at :: "boundary_map_t \<Rightarrow> tag_t \<Rightarrow> error + boundary_condition_t" where
  "map_at bm tag = (case bm tag of None \<Rightarrow> Inl OutOfRange | Some b \<Rightarrow> Inr b)"

text \<open>
  Modelled from the spec: \<^verbatim>\<open>math::solve\<close> (ale/math) and \<^verbatim>\<open>ale::linalg::qr\<close>
  (ale/linalg/qr.h) are not under src/.  By section 4.5 both solve a linear system:
  \<^verbatim>\<open>math::solve( Mp, rhs )\<close> returns the solution, \<^verbatim>\<open>qr( A_view, b_view )\<close> leaves it
  in \<^verbatim>\<open>b_view\<close>.  They are parameters of the task: \<open>solve S Mp rhs\<close> is the vector
  returned, \<open>qr S A b\<close> the content of \<^verbatim>\<open>b_view\<close> after the call.
\<close>

record linear_solvers =
  solve :: "matrix_t \<Rightarrow> vector_t \<Rightarrow> vector_t"
  qr :: "matrix_t \<Rightarrow> vector_t \<Rightarrow> vector_t"

text \<open>
  The corner loop that builds the point matrix \<^verbatim>\<open>Mp\<close> and the right-hand side
  \<^verbatim>\<open>rhs\<close> of a vertex: \<^verbatim>\<open>Mp += Mpc[cn]\<close>, \<^verbatim>\<open>rhs[d] += pc * npc[cn][d]\<close> for every
  \<^verbatim>\<open>d\<close>, and \<^verbatim>\<open>ax_plus_y( Mpc[cn], uc, rhs )\<close>.
\<close>

definition add_corner :: "mesh \<Rightarrow> id_t \<Rightarrow> matrix_t \<times> vector_t \<Rightarrow> error + matrix_t \<times> vector_t" where
  "add_corner m cn = (\<lambda>(Mp, rhs).
     bind_result (front (cells_of_corner m cn)) (\<lambda>cl.
       let D = num_dimensions m;
           pc = cell_pressure m cl;
           uc = cell_velocity m cl;
           Mp = matrix_add D Mp (corner_matrix m cn);
           rhs = map (\<lambda>d. rhs ! d + pc * corner_normal m cn ! d) [0..<D];
           rhs = ax_plus_y D (corner_matrix m cn) uc rhs
       in Inr (Mp, rhs)))"

definition point_system :: "mesh \<Rightarrow> id_t \<Rightarrow> error + matrix_t \<times> vector_t" where
  "point_system m vt =
     for_each (corners_of_vertex m vt) (add_corner m)
       (matrix_fill (num_dimensions m) 0, vector_fill (num_dimensions m) 0)"

text \<open>
  \<^verbatim>\<open>std::find_if\<close> over the tags of the vertex, with the predicate
  \<^verbatim>\<open>boundary_map.at(id)->has_prescribed_velocity()\<close>: the first tag whose condition
  prescribes the velocity, if there is one.
\<close>

fun find_prescribed_velocity :: "boundary_map_t \<Rightarrow> tag_t list \<Rightarrow> error + tag_t option" where
  "find_prescribed_velocity bm [] = Inr None"
| "find_prescribed_velocity bm (tag # tags) =
     (case map_at bm tag of
        Inl e \<Rightarrow> Inl e
      | Inr b \<Rightarrow> if has_prescribed_velocity b then Inr (Some tag)
                 else find_prescribed_velocity bm tags)"

text \<open>
  \<^verbatim>\<open>std::map< tag_t, vector_t > symmetry_normals\<close>: the list of its entries in the
  order of the keys, which is the order a range-for visits them.  \<open>map_store\<close> is
  \<^verbatim>\<open>symmetry_normals[tag] = v\<close>, \<open>map_of\<close> the lookup.
\<close>

type_synonym symmetry_normals_t = "(tag_t \<times> vector_t) list"

fun map_store :: "tag_t \<Rightarrow> vector_t \<Rightarrow> symmetry_normals_t \<Rightarrow> symmetry_normals_t" where
  "map_store k v [] = [(k, v)]"
| "map_store k v ((k', v') # xs) =
     (if k < k' then (k, v) # (k', v') # xs
      else if k = k' then (k, v) # xs
      else (k', v') # map_store k v xs)"

text \<open>
  The body of the loop over the tags of the face of a boundary wedge \<^verbatim>\<open>w\<close>, on the
  right-hand side and the symmetry normals: the pressure condition subtracts
  \<^verbatim>\<open>fact * n[d]\<close> with \<^verbatim>\<open>fact = l * b->pressure( x, soln_time )\<close>; otherwise the symmetry
  condition adds \<^verbatim>\<open>l * n[d]\<close> to the entry of the tag, or starts the entry with it.
\<close>

definition apply_condition ::
  "boundary_map_t \<Rightarrow> mesh \<Rightarrow> id_t \<Rightarrow> tag_t \<Rightarrow> vector_t \<times> symmetry_normals_t
     \<Rightarrow> error + vector_t \<times> symmetry_normals_t" where
  "apply_condition bm m w tag = (\<lambda>(rhs, symmetry_normals).
     bind_result (map_at bm tag) (\<lambda>b.
       if has_prescribed_pressure b then
         (let n = wedge_facet_normal m w;
              l = wedge_facet_area m w;
              x = wedge_facet_centroid m w;
              factor = l * pressure b x (time m)
          in Inr (map (\<lambda>d. rhs ! d - factor * n ! d) [0..<num_dimensions m], symmetry_normals))
       else if has_symmetry b then
         (let n = wedge_facet_normal m w;
              l = wedge_facet_area m w
          in case map_of symmetry_normals tag of
               Some tmp \<Rightarrow>
                 Inr (rhs, map_store tag (map (\<lambda>d. tmp ! d + l * n ! d) [0..<num_dimensions m])
                             symmetry_normals)
             | None \<Rightarrow>
                 Inr (rhs, map_store tag (map (\<lambda>d. l * n ! d) [0..<num_dimensions m])
                             symmetry_normals))
       else Inr (rhs, symmetry_normals)))"

definition apply_wedge ::
  "boundary_map_t \<Rightarrow> mesh \<Rightarrow> id_t \<Rightarrow> vector_t \<times> symmetry_normals_t
     \<Rightarrow> error + vector_t \<times> symmetry_normals_t" where
  "apply_wedge bm m w st =
     bind_result (front (faces_of_wedge m w)) (\<lambda>f.
     bind_result (front (cells_of_wedge m w)) (\<lambda>c.
       for_each (face_tags m f) (apply_condition bm m w) st))"

text \<open>
  Modelled from the spec: \<^verbatim>\<open>filter_boundary\<close> (ale/utils) is not under src/.  By
  section 4.5 the conditions are applied to the boundary wedges of the vertex.
\<close>

definition filter_boundary :: "mesh \<Rightarrow> id_t list \<Rightarrow> id_t list" where
  "filter_boundary m ws = filter (wedge_is_boundary m) ws"

text \<open>
  The system with symmetry constraints.  \<open>view_assign A i j x\<close> is
  \<^verbatim>\<open>A_view( i, j ) = x\<close> on the rows of the view.  \<open>grow_system\<close> follows the source:
  the zeroed \<^verbatim>\<open>A\<close> and \<^verbatim>\<open>b\<close> of \<^verbatim>\<open>num_rows = num_dims + num_symmetry\<close> rows, the
  copy of \<^verbatim>\<open>rhs\<close> and of \<^verbatim>\<open>Mp\<close>, then one column and one row per symmetry normal,
  with the running index \<^verbatim>\<open>j\<close> (resp. \<^verbatim>\<open>i\<close>) started at \<^verbatim>\<open>num_dims\<close>.
\<close>

definition view_assign :: "matrix_t \<Rightarrow> nat \<Rightarrow> nat \<Rightarrow> real_t \<Rightarrow> matrix_t" where
  "view_assign A i j x = A[i := (A ! i)[j := x]]"

definition grow_system ::
  "nat \<Rightarrow> matrix_t \<Rightarrow> vector_t \<Rightarrow> symmetry_normals_t \<Rightarrow> matrix_t \<times> vector_t" where
  "grow_system num_dims Mp rhs symmetry_normals =
     (let num_symmetry = length symmetry_normals;
          num_rows = num_dims + num_symmetry;
          A0 = replicate num_rows (replicate num_rows 0);
          b0 = replicate num_rows 0;
          b = fold (\<lambda>d b. b[d := rhs ! d]) [0..<num_dims] b0;
          A1 = fold (\<lambda>i A. fold (\<lambda>j A. view_assign A i j (Mp ! i ! j)) [0..<num_dims] A)
                 [0..<num_dims] A0;
          A2 = fold (\<lambda>i A. snd (fold (\<lambda>n (j, A). (j + 1, view_assign A i j (snd n ! i)))
                                   symmetry_normals (num_dims, A)))
                 [0..<num_dims] A1;
          A3 = snd (fold (\<lambda>n (i, A). (i + 1, fold (\<lambda>j A. view_assign A i j (snd n ! j))
                                                  [0..<num_dims] A))
                      symmetry_normals (num_dims, A2))
      in (A3, b))"

text \<open>
  The value \<^verbatim>\<open>evaluate_nodal_state\<close> assigns to \<^verbatim>\<open>vertex_velocity[vt]\<close>: the point
  system is built first, for every vertex; then a boundary vertex with a prescribed
  velocity takes the callback's value (the \<^verbatim>\<open>continue\<close> of the source), any other
  boundary vertex applies the conditions of its boundary wedges and solves with or
  without constraints, and an internal vertex solves the point system.  After \<^verbatim>\<open>qr\<close>
  the source copies \<^verbatim>\<open>b_view[d]\<close> into \<^verbatim>\<open>vertex_velocity[vt][d]\<close> for every
  \<^verbatim>\<open>d < num_dims\<close>, which are all the components of the vector.
\<close>

definition nodal_velocity :: "linear_solvers \<Rightarrow> boundary_map_t \<Rightarrow> mesh \<Rightarrow> id_t \<Rightarrow> error + vector_t" where
  "nodal_velocity S bm m vt =
     bind_result (point_system m vt) (\<lambda>(Mp, rhs).
       if vertex_is_boundary m vt then
         bind_result (find_prescribed_velocity bm (vertex_tags m vt)) (\<lambda>vel_bc.
           case vel_bc of
             Some tag \<Rightarrow>
               bind_result (map_at bm tag) (\<lambda>b. Inr (velocity b (coordinates m vt) (time m)))
           | None \<Rightarrow>
               bind_result
                 (for_each (filter_boundary m (wedges_of_vertex m vt)) (apply_wedge bm m) (rhs, []))
                 (\<lambda>(rhs, symmetry_normals).
                    if symmetry_normals = [] then Inr (solve S Mp rhs)
                    else
                      (let num_dims = num_dimensions m;
                           (A, b) = grow_system num_dims Mp rhs symmetry_normals;
                           b = qr S A b
                       in Inr (map (\<lambda>d. b ! d) [0..<num_dims]))))
       else Inr (solve S Mp rhs))"

definition evaluate_nodal_vertex ::
  "linear_solvers \<Rightarrow> boundary_map_t \<Rightarrow> id_t \<Rightarrow> mesh \<Rightarrow> error + mesh" where
  "evaluate_nodal_vertex S bm vt m =
     bind_result (nodal_velocity S bm m vt) (\<lambda>u.
       Inr (m\<lparr> node_velocity := (node_velocity m)(vt := u) \<rparr>))"

definition evaluate_nodal_state :: "linear_solvers \<Rightarrow> boundary_map_t \<Rightarrow> mesh \<Rightarrow> error + mesh" where
  "evaluate_nodal_state S bm m = for_each (vertices m) (evaluate_nodal_vertex S bm) m"

section \<open>The values the loops leave behind\<close>

text \<open>
  For the proofs, the effect of a loop that writes one entry of a field per iteration
  is named as an expression of the mesh before the loop.  \<open>corner_update\<close> is one
  step of the corner loop of \<open>evaluate_forces\<close> on the residual of cell \<open>cl\<close>;
  \<open>cell_residual_value\<close> is the residual the corner loop leaves for \<open>cl\<close>.
\<close>

definition corner_update :: "mesh \<Rightarrow> id_t \<Rightarrow> flux_data_t \<Rightarrow> id_t \<Rightarrow> flux_data_t" where
  "corner_update m cl r cn =
     compute_update (num_dimensions m) (node_velocity m (hd (vertices_of_corner m cn)))
       (subcell_force m cl cn (hd (vertices_of_corner m cn))) (corner_normal m cn) r"

definition cell_residual_value :: "mesh \<Rightarrow> id_t \<Rightarrow> flux_data_t" where
  "cell_residual_value m cl =
     foldl (corner_update m cl) (zero_flux (num_dimensions m)) (corners_of_cell m cl)"

text \<open>
  \<open>corner_matrix_value\<close> and \<open>corner_normal_value\<close> are what the wedge loop of
  \<open>evaluate_corner_coef\<close> leaves in the matrix and the normal of a corner.
\<close>

definition corner_matrix_value :: "mesh \<Rightarrow> id_t \<Rightarrow> matrix_t" where
  "corner_matrix_value m cn =
     foldl (\<lambda>M w. outer_product (num_dimensions m) (wedge_facet_normal m w) (wedge_facet_normal m w) M
                    (cell_density m (hd (cells_of_corner m cn)) *
                     cell_sound_speed m (hd (cells_of_corner m cn)) * wedge_facet_area m w))
       (matrix_fill (num_dimensions m) 0) (wedges_of_corner m cn)"

definition corner_normal_value :: "mesh \<Rightarrow> id_t \<Rightarrow> vector_t" where
  "corner_normal_value m cn =
     foldl (\<lambda>N w. map (\<lambda>d. N ! d + wedge_facet_area m w * wedge_facet_normal m w ! d)
                      [0..<num_dimensions m])
       (vector_fill (num_dimensions m) 0) (wedges_of_corner m cn)"

text \<open>
  For the nodal solver.  \<open>face_of\<close> is \<^verbatim>\<open>mesh.faces(w).front()\<close> of a wedge that has
  a face.  A vertex is \<open>vertex_resolved\<close> when nothing can fail at it: its corners
  have a cell, its boundary wedges have a face and a cell, and its tags and the tags
  of those faces are keys of the boundary map.  A \<open>symmetry_tag\<close> is a tag whose
  condition takes the symmetry branch of the source (no prescribed pressure, and
  \<^verbatim>\<open>has_symmetry()\<close>).  \<open>tagged_wedges\<close> lists the pairs (wedge, tag) in the order the
  two nested loops visit them, and \<open>symmetry_step\<close> is what one visit does to the
  symmetry normals.
\<close>

definition face_of :: "mesh \<Rightarrow> id_t \<Rightarrow> id_t" where
  "face_of m w = hd (faces_of_wedge m w)"

definition vertex_resolved :: "boundary_map_t \<Rightarrow> mesh \<Rightarrow> id_t \<Rightarrow> bool" where
  "vertex_resolved bm m v \<longleftrightarrow>
     (\<forall>cn\<in>set (corners_of_vertex m v). cells_of_corner m cn \<noteq> []) \<and>
     (\<forall>t\<in>set (vertex_tags m v). bm t \<noteq> None) \<and>
     (\<forall>w\<in>set (filter_boundary m (wedges_of_vertex m v)).
        faces_of_wedge m w \<noteq> [] \<and> cells_of_wedge m w \<noteq> [] \<and>
        (\<forall>t\<in>set (face_tags m (face_of m w)). bm t \<noteq> None))"

definition symmetry_tag :: "boundary_map_t \<Rightarrow> tag_t \<Rightarrow> bool" where
  "symmetry_tag bm t =
     (case bm t of None \<Rightarrow> False | Some b \<Rightarrow> \<not> has_prescribed_pressure b \<and> has_symmetry b)"

definition tagged_wedges :: "mesh \<Rightarrow> id_t list \<Rightarrow> (id_t \<times> tag_t) list" where
  "tagged_wedges m ws = concat (map (\<lambda>w. map (Pair w) (face_tags m (face_of m w))) ws)"

definition symmetry_step ::
  "boundary_map_t \<Rightarrow> mesh \<Rightarrow> id_t \<times> tag_t \<Rightarrow> symmetry_normals_t \<Rightarrow> symmetry_normals_t" where
  "symmetry_step bm m = (\<lambda>(w, t) sn.
     if symmetry_tag bm t then
       map_store t
         (case map_of sn t of
            Some tmp \<Rightarrow> map (\<lambda>d. tmp ! d + wedge_facet_area m w * wedge_facet_normal m w ! d)
                          [0..<num_dimensions m]
          | None \<Rightarrow> map (\<lambda>d. wedge_facet_area m w * wedge_facet_normal m w ! d)
                      [0..<num_dimensions m]) sn
     else sn)"

text \<open>
  A \<open>pressure_tag\<close> is a tag whose condition takes the pressure branch of the source
  (\<^verbatim>\<open>has_prescribed_pressure()\<close>), and \<open>pressure_step\<close> is what one visit of the two
  nested loops does to the right-hand side.
\<close>

definition pressure_tag :: "boundary_map_t \<Rightarrow> tag_t \<Rightarrow> bool" where
  "pressure_tag bm t = (case bm t of None \<Rightarrow> False | Some b \<Rightarrow> has_prescribed_pressure b)"

definition pressure_step :: "boundary_map_t \<Rightarrow> mesh \<Rightarrow> id_t \<times> tag_t \<Rightarrow> vector_t \<Rightarrow> vector_t" where
  "pressure_step bm m = (\<lambda>(w, t) rhs.
     if pressure_tag bm t then
       map (\<lambda>d. rhs ! d - wedge_facet_area m w *
                    pressure (the (bm t)) (wedge_facet_centroid m w) (time m) *
                    wedge_facet_normal m w ! d) [0..<num_dimensions m]
     else rhs)"

text \<open>A matrix of \<open>n\<close> rows of \<open>n\<close> entries.\<close>

definition square :: "matrix_t \<Rightarrow> nat \<Rightarrow> bool" where
  "square A n \<longleftrightarrow> length A = n \<and> (\<forall>i<n. length (A ! i) = n)"

section \<open>A mesh of two quadrilateral cells\<close>

text \<open>
  Two unit squares side by side, cell 0 on the left and cell 1 on the right, with six
  vertices (0, 1, 2 on the bottom row, 3, 4, 5 on the top row), one corner per cell
  and vertex, two wedges per corner and seven faces; face 6 is the interior face
  between vertices 1 and 4.  The concrete instances of the theorems below are taken
  on this mesh.
\<close>

definition two_cells :: mesh where
  "two_cells =
     \<lparr> num_dimensions = 2,
       cells = [0, 1],
       vertices = [0, 1, 2, 3, 4, 5],
       corners = [0, 1, 2, 3, 4, 5, 6, 7],
       cells_of_vertex = (\<lambda>v. [[0], [0, 1], [1], [0], [0, 1], [1]] ! v),
       corners_of_vertex = (\<lambda>v. [[0], [1, 4], [5], [3], [2, 7], [6]] ! v),
       wedges_of_vertex = (\<lambda>v. [[0, 1], [2, 3, 8, 9], [10, 11], [6, 7], [4, 5, 14, 15], [12, 13]] ! v),
       corners_of_cell = (\<lambda>c. [[0, 1, 2, 3], [4, 5, 6, 7]] ! c),
       cells_of_corner = (\<lambda>cn. [[0], [0], [0], [0], [1], [1], [1], [1]] ! cn),
       vertices_of_corner = (\<lambda>cn. [[0], [1], [4], [3], [1], [2], [5], [4]] ! cn),
       vertices_of_edge = (\<lambda>e. [[0, 1], [1, 2], [2, 5], [5, 4], [4, 3], [3, 0], [1, 4]] ! e),
       wedges_of_corner = (\<lambda>cn. [[0, 1], [2, 3], [4, 5], [6, 7], [8, 9], [10, 11], [12, 13], [14, 15]] ! cn),
       faces_of_wedge = (\<lambda>w. [[5], [0], [0], [6], [6], [4], [4], [5],
                               [6], [1], [1], [2], [2], [3], [3], [6]] ! w),
       cells_of_wedge = (\<lambda>w. [[0], [0], [0], [0], [0], [0], [0], [0],
                               [1], [1], [1], [1], [1], [1], [1], [1]] ! w),
       vertex_is_boundary = (\<lambda>v. True),
       wedge_is_boundary = (\<lambda>w. w \<notin> {3, 4, 8, 15}),
       vertex_tags = (\<lambda>v. [[1, 4], [1], [1, 2], [3, 4], [3], [2, 3]] ! v),
       face_tags = (\<lambda>f. [[1], [1], [2], [3], [3], [4], []] ! f),
       coordinates = (\<lambda>v. [[0, 0], [1, 0], [2, 0], [0, 1], [1, 1], [2, 1]] ! v),
       time = 0,
       time_step = 1 / 10,
       cfl = \<lparr> accoustic = 1, volume = 1, growth = 1 \<rparr>,
       cell_mass = (\<lambda>c. [1, 1 / 2] ! c),
       cell_volume = (\<lambda>c. [1, 1] ! c),
       cell_pressure = (\<lambda>c. [1, 1 / 10] ! c),
       cell_velocity = (\<lambda>c. [[1, 0], [3, 2]] ! c),
       cell_density = (\<lambda>c. [1, 1 / 2] ! c),
       cell_internal_energy = (\<lambda>c. [5 / 2, 2] ! c),
       cell_temperature = (\<lambda>c. [1, 1] ! c),
       cell_sound_speed = (\<lambda>c. [2, 6] ! c),
       cell_velocity_1 = (\<lambda>c. [0, 0]),
       cell_internal_energy_1 = (\<lambda>c. 0),
       cell_residual = (\<lambda>c. \<lparr> mass_rate = 0, momentum_rate = [0, 0], energy_rate = 0,
                               volume_rate = [1 / 2, - 1 / 4] ! c \<rparr>),
       cell_min_length = (\<lambda>c. [1, 1] ! c),
       cell_centroid = (\<lambda>c. [[1 / 2, 1 / 2], [3 / 2, 1 / 2]] ! c),
       node_velocity = (\<lambda>v. [[1, 0], [1, 1], [0, 0], [0, 2], [2, 2], [1, 0]] ! v),
       node_coordinates = (\<lambda>v. [0, 0]),
       corner_matrix = (\<lambda>cn. [[2, 1], [1, 2]]),
       corner_normal = (\<lambda>cn. [[- 1 / 2, - 1 / 2], [1 / 2, - 1 / 2], [1 / 2, 1 / 2], [- 1 / 2, 1 / 2],
                               [- 1 / 2, - 1 / 2], [1 / 2, - 1 / 2], [1 / 2, 1 / 2], [- 1 / 2, 1 / 2]] ! cn),
       wedge_facet_normal = (\<lambda>w. [[- 1, 0], [0, - 1], [0, - 1], [1, 0], [1, 0], [0, 1], [0, 1], [- 1, 0],
                                    [- 1, 0], [0, - 1], [0, - 1], [1, 0], [1, 0], [0, 1], [0, 1], [- 1, 0]] ! w),
       wedge_facet_area = (\<lambda>w. 1 / 2),
       wedge_facet_centroid = (\<lambda>w. [[0, 1 / 4], [1 / 4, 0], [3 / 4, 0], [1, 1 / 4],
                                      [1, 3 / 4], [3 / 4, 1], [1 / 4, 1], [0, 3 / 4],
                                      [1, 1 / 4], [5 / 4, 0], [7 / 4, 0], [2, 1 / 4],
                                      [2, 3 / 4], [7 / 4, 1], [5 / 4, 1], [1, 3 / 4]] ! w) \<rparr>"

text \<open>Geometry kernels for the instances; the cell centroid kernel reads the coordinates.\<close>

definition flat_kernels :: geometry_kernels where
  "flat_kernels =
     \<lparr> volume_kernel = (\<lambda>m c. 1), centroid_kernel = (\<lambda>m c. coordinates m (hd (vertices m))),
       min_length_kernel = (\<lambda>m c. 1), facet_normal_kernel = (\<lambda>m w. wedge_facet_normal m w),
       facet_area_kernel = (\<lambda>m w. 1 / 2), facet_centroid_kernel = (\<lambda>m w. coordinates m 0) \<rparr>"

text \<open>
  A 3d edge from (0, 0, 0) to (0, 0, 1): only the vertex coordinates and the vertices of
  the edge matter for its length.
\<close>

definition vertical_edge_3d :: mesh where
  "vertical_edge_3d =
     two_cells\<lparr> num_dimensions := 3, vertices := [0, 1],
                coordinates := (\<lambda>v. [[0, 0, 0], [0, 0, 1]] ! v),
                vertices_of_edge := (\<lambda>e. [0, 1]) \<rparr>"

text \<open>The example mesh with no cell changing its volume.\<close>

definition still_cells :: mesh where
  "still_cells = two_cells\<lparr> cell_residual := (\<lambda>c. zero_flux 2) \<rparr>"

text \<open>
  Boundary conditions for the example mesh: symmetry on the bottom (tag 1) and on the
  top (tag 3), a prescribed pressure 3 on the right (tag 2) and a prescribed velocity
  on the left (tag 4).  The last one overrides \<^verbatim>\<open>has_prescribed_velocity\<close> and
  \<^verbatim>\<open>velocity\<close> only, so it keeps the \<^verbatim>\<open>has_symmetry\<close> of the base class.
\<close>

definition symmetry_condition :: boundary_condition_t where
  "symmetry_condition =
     \<lparr> has_prescribed_velocity = False, has_prescribed_pressure = False, has_symmetry = True,
       velocity = (\<lambda>x t. [0, 0]), pressure = (\<lambda>x t. 0) \<rparr>"

definition pressure_condition :: boundary_condition_t where
  "pressure_condition =
     \<lparr> has_prescribed_velocity = False, has_prescribed_pressure = True, has_symmetry = False,
       velocity = (\<lambda>x t. [0, 0]), pressure = (\<lambda>x t. 3) \<rparr>"

definition velocity_condition :: boundary_condition_t where
  "velocity_condition =
     \<lparr> has_prescribed_velocity = True, has_prescribed_pressure = False, has_symmetry = True,
       velocity = (\<lambda>x t. [x ! 0 + 1, x ! 1 + t + 2]), pressure = (\<lambda>x t. 0) \<rparr>"

definition example_conditions :: boundary_map_t where
  "example_conditions =
     [1 \<mapsto> symmetry_condition, 2 \<mapsto> pressure_condition, 3 \<mapsto> symmetry_condition,
      4 \<mapsto> velocity_condition]"

text \<open>Solvers for the instances: any pair of functions will do there.\<close>

definition example_solvers :: linear_solvers where
  "example_solvers =
     \<lparr> solve = (\<lambda>Mp rhs. map (\<lambda>d. rhs ! d / Mp ! d ! d) [0..<length rhs]),
       qr = (\<lambda>A b. map (\<lambda>d. b ! d / 2) [0..<length b]) \<rparr>"

text \<open>Symmetry on every side.\<close>

definition symmetry_everywhere :: boundary_map_t where
  "symmetry_everywhere = (\<lambda>t. Some symmetry_condition)"

text \<open>A prescribed pressure 3 on every side.\<close>

definition pressure_everywhere :: boundary_map_t where
  "pressure_everywhere = (\<lambda>t. Some pressure_condition)"

section \<open>Facts about the example mesh and about loops\<close>

lemma two_cells_simps:
  "num_dimensions two_cells = 2"
  "cells two_cells = [0, 1]"
  "vertices two_cells = [0, 1, 2, 3, 4, 5]"
  "corners two_cells = [0, 1, 2, 3, 4, 5, 6, 7]"
  "cells_of_vertex two_cells = (\<lambda>v. [[0], [0, 1], [1], [0], [0, 1], [1]] ! v)"
  "corners_of_vertex two_cells = (\<lambda>v. [[0], [1, 4], [5], [3], [2, 7], [6]] ! v)"
  "wedges_of_vertex two_cells =
     (\<lambda>v. [[0, 1], [2, 3, 8, 9], [10, 11], [6, 7], [4, 5, 14, 15], [12, 13]] ! v)"
  "corners_of_cell two_cells = (\<lambda>c. [[0, 1, 2, 3], [4, 5, 6, 7]] ! c)"
  "cells_of_corner two_cells = (\<lambda>cn. [[0], [0], [0], [0], [1], [1], [1], [1]] ! cn)"
  "vertices_of_corner two_cells = (\<lambda>cn. [[0], [1], [4], [3], [1], [2], [5], [4]] ! cn)"
  "vertices_of_edge two_cells = (\<lambda>e. [[0, 1], [1, 2], [2, 5], [5, 4], [4, 3], [3, 0], [1, 4]] ! e)"
  "wedges_of_corner two_cells =
     (\<lambda>cn. [[0, 1], [2, 3], [4, 5], [6, 7], [8, 9], [10, 11], [12, 13], [14, 15]] ! cn)"
  "faces_of_wedge two_cells =
     (\<lambda>w. [[5], [0], [0], [6], [6], [4], [4], [5], [6], [1], [1], [2], [2], [3], [3], [6]] ! w)"
  "cells_of_wedge two_cells =
     (\<lambda>w. [[0], [0], [0], [0], [0], [0], [0], [0], [1], [1], [1], [1], [1], [1], [1], [1]] ! w)"
  "vertex_is_boundary two_cells = (\<lambda>v. True)"
  "wedge_is_boundary two_cells = (\<lambda>w. w \<notin> {3, 4, 8, 15})"
  "vertex_tags two_cells = (\<lambda>v. [[1, 4], [1], [1, 2], [3, 4], [3], [2, 3]] ! v)"
  "face_tags two_cells = (\<lambda>f. [[1], [1], [2], [3], [3], [4], []] ! f)"
  "coordinates two_cells = (\<lambda>v. [[0, 0], [1, 0], [2, 0], [0, 1], [1, 1], [2, 1]] ! v)"
  "time two_cells = 0"
  "time_step two_cells = 1 / 10"
  "cfl two_cells = \<lparr> accoustic = 1, volume = 1, growth = 1 \<rparr>"
  "cell_mass two_cells = (\<lambda>c. [1, 1 / 2] ! c)"
  "cell_volume two_cells = (\<lambda>c. [1, 1] ! c)"
  "cell_pressure two_cells = (\<lambda>c. [1, 1 / 10] ! c)"
  "cell_velocity two_cells = (\<lambda>c. [[1, 0], [3, 2]] ! c)"
  "cell_density two_cells = (\<lambda>c. [1, 1 / 2] ! c)"
  "cell_internal_energy two_cells = (\<lambda>c. [5 / 2, 2] ! c)"
  "cell_temperature two_cells = (\<lambda>c. [1, 1] ! c)"
  "cell_sound_speed two_cells = (\<lambda>c. [2, 6] ! c)"
  "cell_velocity_1 two_cells = (\<lambda>c. [0, 0])"
  "cell_internal_energy_1 two_cells = (\<lambda>c. 0)"
  "cell_residual two_cells =
     (\<lambda>c. \<lparr> mass_rate = 0, momentum_rate = [0, 0], energy_rate = 0,
            volume_rate = [1 / 2, - 1 / 4] ! c \<rparr>)"
  "cell_min_length two_cells = (\<lambda>c. [1, 1] ! c)"
  "cell_centroid two_cells = (\<lambda>c. [[1 / 2, 1 / 2], [3 / 2, 1 / 2]] ! c)"
  "node_velocity two_cells = (\<lambda>v. [[1, 0], [1, 1], [0, 0], [0, 2], [2, 2], [1, 0]] ! v)"
  "node_coordinates two_cells = (\<lambda>v. [0, 0])"
  "corner_matrix two_cells = (\<lambda>cn. [[2, 1], [1, 2]])"
  "corner_normal two_cells =
     (\<lambda>cn. [[- 1 / 2, - 1 / 2], [1 / 2, - 1 / 2], [1 / 2, 1 / 2], [- 1 / 2, 1 / 2],
            [- 1 / 2, - 1 / 2], [1 / 2, - 1 / 2], [1 / 2, 1 / 2], [- 1 / 2, 1 / 2]] ! cn)"
  "wedge_facet_normal two_cells =
     (\<lambda>w. [[- 1, 0], [0, - 1], [0, - 1], [1, 0], [1, 0], [0, 1], [0, 1], [- 1, 0],
           [- 1, 0], [0, - 1], [0, - 1], [1, 0], [1, 0], [0, 1], [0, 1], [- 1, 0]] ! w)"
  "wedge_facet_area two_cells = (\<lambda>w. 1 / 2)"
  "wedge_facet_centroid two_cells =
     (\<lambda>w. [[0, 1 / 4], [1 / 4, 0], [3 / 4, 0], [1, 1 / 4], [1, 3 / 4], [3 / 4, 1], [1 / 4, 1], [0, 3 / 4],
           [1, 1 / 4], [5 / 4, 0], [7 / 4, 0], [2, 1 / 4], [2, 3 / 4], [7 / 4, 1], [5 / 4, 1], [1, 3 / 4]] ! w)"
  by (simp_all add: two_cells_def)

lemma fold_field_invariant:
  assumes "\<And>x s. g (f x s) = g s"
  shows "g (fold f xs s) = g s"
  using assms by (induction xs arbitrary: s) simp_all

section \<open>Saving, moving and restoring the coordinates\<close>

lemma save_coordinates_fold:
  "fold (\<lambda>vt s. s\<lparr> node_coordinates := (node_coordinates s)(vt := coordinates s vt) \<rparr>) vs m
   = m\<lparr> node_coordinates := (\<lambda>v. if v \<in> set vs then coordinates m v else node_coordinates m v) \<rparr>"
  by (induction vs arbitrary: m)
    (auto simp: fun_eq_iff intro!: arg_cong2[where f="node_coordinates_update"])

lemma restore_coordinates_fold:
  "fold (\<lambda>vt s. s\<lparr> coordinates := (coordinates s)(vt := node_coordinates s vt) \<rparr>) vs m
   = m\<lparr> coordinates := (\<lambda>v. if v \<in> set vs then node_coordinates m v else coordinates m v) \<rparr>"
  by (induction vs arbitrary: m)
    (auto simp: fun_eq_iff intro!: arg_cong2[where f="coordinates_update"])

lemma save_coordinates_eq:
  "save_coordinates m =
     m\<lparr> node_coordinates :=
          (\<lambda>v. if v \<in> set (vertices m) then coordinates m v else node_coordinates m v) \<rparr>"
  unfolding save_coordinates_def by (rule save_coordinates_fold)

lemma restore_coordinates_eq:
  "restore_coordinates m =
     m\<lparr> coordinates :=
          (\<lambda>v. if v \<in> set (vertices m) then node_coordinates m v else coordinates m v) \<rparr>"
  unfolding restore_coordinates_def by (rule restore_coordinates_fold)

text \<open>One vertex is displaced component by component; nothing else is written.\<close>

lemma displace_fold:
  "fold (\<lambda>d s. s\<lparr> coordinates := (coordinates s)
           (vt := (coordinates s vt)[d := coordinates s vt ! d + a * node_velocity s vt ! d]) \<rparr>) ds m
   = m\<lparr> coordinates := (coordinates m)
          (vt := fold (\<lambda>d x. x[d := x ! d + a * node_velocity m vt ! d]) ds (coordinates m vt)) \<rparr>"
  by (induction ds arbitrary: m) simp_all

lemma move_vertex_eq:
  "move_vertex a vt m =
     m\<lparr> coordinates := (coordinates m)
          (vt := fold (\<lambda>d x. x[d := x ! d + a * node_velocity m vt ! d])
                   [0..<num_dimensions m] (coordinates m vt)) \<rparr>"
  unfolding move_vertex_def by (rule displace_fold)

lemma displace_components:
  "distinct ds \<Longrightarrow> d < length x \<Longrightarrow>
   fold (\<lambda>d x. x[d := x ! d + a * u ! d]) ds x ! d = (if d \<in> set ds then x ! d + a * u ! d else x ! d)"
proof (induction ds arbitrary: x)
  case Nil
  then show ?case by simp
next
  case (Cons e ds)
  then show ?case by (cases "d = e") (auto simp: nth_list_update)
qed

lemma move_vertex_fields:
  "node_coordinates (move_vertex a vt m) = node_coordinates m"
  "vertices (move_vertex a vt m) = vertices m"
  "node_velocity (move_vertex a vt m) = node_velocity m"
  "num_dimensions (move_vertex a vt m) = num_dimensions m"
  "coordinates (move_vertex a vt m) =
     (coordinates m)(vt := fold (\<lambda>d x. x[d := x ! d + a * node_velocity m vt ! d])
                             [0..<num_dimensions m] (coordinates m vt))"
  by (simp_all add: move_vertex_eq)

lemma move_fold_other:
  "v \<notin> set vs \<Longrightarrow> coordinates (fold (move_vertex a) vs m) v = coordinates m v"
  by (induction vs arbitrary: m) (simp_all add: move_vertex_fields)

lemma move_fold_fields:
  "node_coordinates (fold (move_vertex a) vs m) = node_coordinates m"
  "vertices (fold (move_vertex a) vs m) = vertices m"
  "node_velocity (fold (move_vertex a) vs m) = node_velocity m"
  "num_dimensions (fold (move_vertex a) vs m) = num_dimensions m"
  by (rule fold_field_invariant, simp add: move_vertex_fields)+

lemma move_fold_displaced:
  "distinct vs \<Longrightarrow> v \<in> set vs \<Longrightarrow>
   coordinates (fold (move_vertex a) vs m) v =
     fold (\<lambda>d x. x[d := x ! d + a * node_velocity m v ! d]) [0..<num_dimensions m] (coordinates m v)"
proof (induction vs arbitrary: m)
  case Nil
  then show ?case by simp
next
  case (Cons w vs)
  show ?case
  proof (cases "v = w")
    case True
    with Cons.prems have "v \<notin> set vs" by simp
    then show ?thesis using True by (simp add: move_fold_other move_vertex_fields)
  next
    case False
    with Cons.prems have "distinct vs" "v \<in> set vs" by simp_all
    from Cons.IH[OF this] show ?thesis using False by (simp add: move_vertex_fields)
  qed
qed

lemma move_mesh_fields:
  "node_coordinates (move_mesh G coef m) = node_coordinates m"
  "vertices (move_mesh G coef m) = vertices m"
  by (simp_all add: move_mesh_def Let_def update_geometry_def move_fold_fields)

lemma move_mesh_other:
  "v \<notin> set (vertices m) \<Longrightarrow> coordinates (move_mesh G coef m) v = coordinates m v"
  by (simp add: move_mesh_def Let_def update_geometry_def move_fold_other)

text \<open>
  What \<open>move_mesh\<close> does to a vertex of a mesh whose vertex list has no repetition:
  each of its \<open>num_dimensions\<close> coordinates is displaced by the step factor times the
  nodal velocity.
\<close>

lemma move_mesh_displaces:
  assumes "distinct (vertices m)" and "v \<in> set (vertices m)"
    and "length (coordinates m v) = num_dimensions m" and "d < num_dimensions m"
  shows "coordinates (move_mesh G coef m) v ! d =
           coordinates m v ! d + coef * time_step m * node_velocity m v ! d"
  using assms
  by (simp add: move_mesh_def Let_def update_geometry_def move_fold_displaced displace_components)

text \<open>
  C8.  For every mesh, every step factor \<open>coef\<close> (and whatever the geometry kernels
  recompute): saving the coordinates, moving the mesh and restoring the coordinates
  leaves the coordinates of every vertex equal to their values before the save.  The
  saved copy is only copied back, so no arithmetic on the coordinates is involved in
  the equality.
\<close>

theorem save_move_restore_coordinates:
  "coordinates (restore_coordinates (move_mesh G coef (save_coordinates m))) = coordinates m"
proof (rule ext)
  fix v
  let ?s = "save_coordinates m"
  let ?mv = "move_mesh G coef ?s"
  have vs: "vertices ?mv = vertices m"
    by (simp add: move_mesh_fields save_coordinates_eq)
  show "coordinates (restore_coordinates ?mv) v = coordinates m v"
  proof (cases "v \<in> set (vertices m)")
    case True
    then have "coordinates (restore_coordinates ?mv) v = node_coordinates ?mv v"
      by (simp add: restore_coordinates_eq vs)
    also have "\<dots> = node_coordinates ?s v"
      by (simp add: move_mesh_fields)
    also have "\<dots> = coordinates m v"
      using True by (simp add: save_coordinates_eq)
    finally show ?thesis .
  next
    case False
    then have "coordinates (restore_coordinates ?mv) v = coordinates ?mv v"
      by (simp add: restore_coordinates_eq vs)
    also have "\<dots> = coordinates ?s v"
      using False by (simp add: move_mesh_other save_coordinates_eq)
    also have "\<dots> = coordinates m v"
      by (simp add: save_coordinates_eq)
    finally show ?thesis .
  qed
qed

text \<open>
  On the example mesh with half a step: vertex 4 is moved from (1, 1) to
  (11/10, 11/10) and is back at (1, 1) after the restore.
\<close>

theorem save_move_restore_coordinates_witness:
  "coordinates (move_mesh flat_kernels (1 / 2) (save_coordinates two_cells)) 4 ! 0 = 11 / 10 \<and>
   coordinates (move_mesh flat_kernels (1 / 2) (save_coordinates two_cells)) 4 ! 1 = 11 / 10 \<and>
   coordinates (restore_coordinates (move_mesh flat_kernels (1 / 2) (save_coordinates two_cells))) 4
     = [1, 1]"
proof -
  let ?s = "save_coordinates two_cells"
  have "coordinates (move_mesh flat_kernels (1 / 2) ?s) 4 ! 0 = 11 / 10"
    by (subst move_mesh_displaces) (simp_all add: save_coordinates_eq two_cells_simps)
  moreover have "coordinates (move_mesh flat_kernels (1 / 2) ?s) 4 ! 1 = 11 / 10"
    by (subst move_mesh_displaces) (simp_all add: save_coordinates_eq two_cells_simps)
  moreover have "coordinates (restore_coordinates (move_mesh flat_kernels (1 / 2) ?s)) 4 = [1, 1]"
    using save_move_restore_coordinates [of flat_kernels "1 / 2" two_cells]
    by (simp add: two_cells_simps)
  ultimately show ?thesis by simp
qed

section \<open>Saving and restoring the solution\<close>

lemma save_solution_fold:
  "fold (\<lambda>c s. s\<lparr> cell_velocity_1 := (cell_velocity_1 s)(c := cell_velocity s c),
                 cell_internal_energy_1 := (cell_internal_energy_1 s)(c := cell_internal_energy s c) \<rparr>) cs m
   = m\<lparr> cell_velocity_1 := (\<lambda>c. if c \<in> set cs then cell_velocity m c else cell_velocity_1 m c),
        cell_internal_energy_1 :=
          (\<lambda>c. if c \<in> set cs then cell_internal_energy m c else cell_internal_energy_1 m c) \<rparr>"
proof (induction cs arbitrary: m)
  case Nil
  show ?case by simp
next
  case (Cons c cs)
  show ?case
    unfolding fold_simps Cons.IH
    by (auto simp: fun_eq_iff intro!: arg_cong2[where f="cell_velocity_1_update"]
          arg_cong2[where f="cell_internal_energy_1_update"])
qed

lemma restore_solution_fold:
  "fold (\<lambda>c s. s\<lparr> cell_velocity := (cell_velocity s)(c := cell_velocity_1 s c),
                 cell_internal_energy := (cell_internal_energy s)(c := cell_internal_energy_1 s c) \<rparr>) cs m
   = m\<lparr> cell_velocity := (\<lambda>c. if c \<in> set cs then cell_velocity_1 m c else cell_velocity m c),
        cell_internal_energy :=
          (\<lambda>c. if c \<in> set cs then cell_internal_energy_1 m c else cell_internal_energy m c) \<rparr>"
proof (induction cs arbitrary: m)
  case Nil
  show ?case by simp
next
  case (Cons c cs)
  show ?case
    unfolding fold_simps Cons.IH
    by (auto simp: fun_eq_iff intro!: arg_cong2[where f="cell_velocity_update"]
          arg_cong2[where f="cell_internal_energy_update"])
qed

lemma save_solution_eq:
  "save_solution m =
     m\<lparr> cell_velocity_1 :=
          (\<lambda>c. if c \<in> set (cells m) then cell_velocity m c else cell_velocity_1 m c),
        cell_internal_energy_1 :=
          (\<lambda>c. if c \<in> set (cells m) then cell_internal_energy m c else cell_internal_energy_1 m c) \<rparr>"
  unfolding save_solution_def by (rule save_solution_fold)

lemma restore_solution_eq:
  "restore_solution m =
     m\<lparr> cell_velocity :=
          (\<lambda>c. if c \<in> set (cells m) then cell_velocity_1 m c else cell_velocity m c),
        cell_internal_energy :=
          (\<lambda>c. if c \<in> set (cells m) then cell_internal_energy_1 m c else cell_internal_energy m c) \<rparr>"
  unfolding restore_solution_def by (rule restore_solution_fold)

text \<open>
  C10.  \<open>save_solution\<close> copies, for every cell of the mesh, version 0 of the cell
  velocity and of the cell internal energy into version 1, and the saved mesh is the
  mesh it started from with those two version-1 fields replaced: every other field is
  the same, among them version 0 of the two fields, the cell mass, volume, pressure,
  density, temperature and sound speed, and the vertex fields (nodal velocity, saved
  coordinates, coordinates).  \<open>restore_solution\<close> copies the two version-1 fields back
  into version 0 for every cell, and the restored mesh is the mesh it started from with
  version 0 of those two fields replaced.
\<close>

theorem save_restore_solution_frame:
  "(\<forall>c \<in> set (cells m).
      cell_velocity_1 (save_solution m) c = cell_velocity m c \<and>
      cell_internal_energy_1 (save_solution m) c = cell_internal_energy m c) \<and>
   save_solution m =
     m\<lparr> cell_velocity_1 := cell_velocity_1 (save_solution m),
        cell_internal_energy_1 := cell_internal_energy_1 (save_solution m) \<rparr> \<and>
   (let s = save_solution m in
      cell_velocity s = cell_velocity m \<and> cell_internal_energy s = cell_internal_energy m \<and>
      cell_mass s = cell_mass m \<and> cell_volume s = cell_volume m \<and>
      cell_pressure s = cell_pressure m \<and> cell_density s = cell_density m \<and>
      cell_temperature s = cell_temperature m \<and> cell_sound_speed s = cell_sound_speed m \<and>
      node_velocity s = node_velocity m \<and> node_coordinates s = node_coordinates m \<and>
      coordinates s = coordinates m) \<and>
   (\<forall>c \<in> set (cells m).
      cell_velocity (restore_solution m) c = cell_velocity_1 m c \<and>
      cell_internal_energy (restore_solution m) c = cell_internal_energy_1 m c) \<and>
   restore_solution m =
     m\<lparr> cell_velocity := cell_velocity (restore_solution m),
        cell_internal_energy := cell_internal_energy (restore_solution m) \<rparr> \<and>
   (let r = restore_solution m in
      cell_velocity_1 r = cell_velocity_1 m \<and> cell_internal_energy_1 r = cell_internal_energy_1 m \<and>
      cell_mass r = cell_mass m \<and> cell_volume r = cell_volume m \<and>
      cell_pressure r = cell_pressure m \<and> cell_density r = cell_density m \<and>
      cell_temperature r = cell_temperature m \<and> cell_sound_speed r = cell_sound_speed m \<and>
      node_velocity r = node_velocity m \<and> node_coordinates r = node_coordinates m \<and>
      coordinates r = coordinates m)"
  by (simp add: save_solution_eq restore_solution_eq)

text \<open>
  On the example mesh: cell 1 has velocity (3, 2) and internal energy 2, and the
  version-1 fields are zero before the save.
\<close>

theorem save_restore_solution_frame_witness:
  "cell_velocity_1 (save_solution two_cells) 1 = [3, 2] \<and>
   cell_internal_energy_1 (save_solution two_cells) 1 = 2 \<and>
   cell_pressure (save_solution two_cells) 1 = 1 / 10 \<and>
   cell_velocity (restore_solution two_cells) 1 = [0, 0] \<and>
   cell_internal_energy (restore_solution two_cells) 0 = 0 \<and>
   cell_density (restore_solution two_cells) 1 = 1 / 2"
  using save_restore_solution_frame [of two_cells]
  by (simp add: two_cells_simps Let_def)

section \<open>The estimate of the nodal velocity\<close>

lemma vector_add_length: "length (vector_add D a b) = D"
  by (simp add: vector_add_def)

lemma vector_add_nth: "d < D \<Longrightarrow> vector_add D a b ! d = a ! d + b ! d"
  by (simp add: vector_add_def)

lemma estimate_accumulate_fold:
  "fold (\<lambda>c s. s\<lparr> node_velocity := (node_velocity s)
                 (v := vector_add D (node_velocity s v) (cell_velocity s c)) \<rparr>) cs m
   = m\<lparr> node_velocity := (node_velocity m)
          (v := foldl (\<lambda>a c. vector_add D a (cell_velocity m c)) (node_velocity m v) cs) \<rparr>"
  by (induction cs arbitrary: m) simp_all

lemma foldl_vector_add_nth:
  "d < D \<Longrightarrow> foldl (\<lambda>a c. vector_add D a (u c)) a cs ! d = a ! d + (\<Sum>c\<leftarrow>cs. u c ! d)"
  by (induction cs arbitrary: a) (simp_all add: vector_add_nth)

lemma estimate_vertex_eq:
  "estimate_vertex v m =
     m\<lparr> node_velocity := (node_velocity m)
          (v := vector_div (num_dimensions m)
                  (foldl (\<lambda>a c. vector_add (num_dimensions m) a (cell_velocity m c))
                     (vector_fill (num_dimensions m) 0) (cells_of_vertex m v))
                  (real (length (cells_of_vertex m v)))) \<rparr>"
  unfolding estimate_vertex_def Let_def estimate_accumulate_fold by simp

lemma estimate_fold_eq:
  "fold estimate_vertex vs m =
     m\<lparr> node_velocity := (\<lambda>v. if v \<in> set vs
          then vector_div (num_dimensions m)
                  (foldl (\<lambda>a c. vector_add (num_dimensions m) a (cell_velocity m c))
                     (vector_fill (num_dimensions m) 0) (cells_of_vertex m v))
                  (real (length (cells_of_vertex m v)))
          else node_velocity m v) \<rparr>"
proof (induction vs arbitrary: m)
  case Nil
  show ?case by simp
next
  case (Cons x xs)
  show ?case
    unfolding fold_simps Cons.IH
    by (auto simp: estimate_vertex_eq fun_eq_iff intro!: arg_cong2[where f="node_velocity_update"])
qed

text \<open>
  C9.  For every vertex \<open>v\<close> of the mesh with at least one incident cell,
  \<open>estimate_nodal_state\<close> leaves in \<open>node_velocity v\<close> a vector of \<open>num_dimensions\<close>
  components, each the sum of that component of the cell velocities over the cells
  incident to \<open>v\<close>, divided by the number of those cells.  The right-hand side reads
  the incidence and the cell velocities only.
\<close>

theorem estimate_nodal_state_mean:
  assumes "v \<in> set (vertices m)" and "cells_of_vertex m v \<noteq> []" and "d < num_dimensions m"
  shows "node_velocity (estimate_nodal_state m) v ! d =
           (\<Sum>c\<leftarrow>cells_of_vertex m v. cell_velocity m c ! d) / real (length (cells_of_vertex m v)) \<and>
         length (node_velocity (estimate_nodal_state m) v) = num_dimensions m"
  using assms
  by (simp add: estimate_nodal_state_def estimate_fold_eq vector_div_def vector_fill_def
        foldl_vector_add_nth)

text \<open>
  On the example mesh, vertex 4 touches both cells, of velocities (1, 0) and (3, 2):
  its estimate is (2, 1).
\<close>

theorem estimate_nodal_state_mean_witness:
  "node_velocity (estimate_nodal_state two_cells) 4 ! 0 = 2 \<and>
   node_velocity (estimate_nodal_state two_cells) 4 ! 1 = 1 \<and>
   length (node_velocity (estimate_nodal_state two_cells) 4) = 2"
  using estimate_nodal_state_mean [of 4 two_cells 0] estimate_nodal_state_mean [of 4 two_cells 1]
  by (simp add: two_cells_simps)

section \<open>The length of an edge\<close>

text \<open>
  In 2d the length is the Euclidean distance of the two vertices.  In 3d the same
  two-term expression is evaluated: the third coordinate is never read.
\<close>

lemma burton_2d_edge_length_euclidean:
  assumes "vertices_of_edge m e = [v0, v1]"
  shows "burton_2d_edge_length m e =
           Inr (sqrt (\<Sum>d<2. (coordinates m v0 ! d - coordinates m v1 ! d)\<^sup>2))"
  using assms
  by (simp add: burton_2d_edge_length_def Let_def sqr_def power2_eq_square lessThan_Suc numeral_2_eq_2 add.commute)

lemma burton_3d_edge_length_planar:
  assumes "vertices_of_edge m e = [v0, v1]"
  shows "burton_3d_edge_length m e =
           Inr (sqrt (\<Sum>d<2. (coordinates m v0 ! d - coordinates m v1 ! d)\<^sup>2))"
  using assms
  by (simp add: burton_3d_edge_length_def Let_def sqr_def power2_eq_square lessThan_Suc numeral_2_eq_2 add.commute)

text \<open>
  C7.  The claim is that in every dimension the length of an edge is the Euclidean
  distance of its two vertices over all coordinates.  The 3d edge from (0, 0, 0) to
  (0, 0, 1) has Euclidean length 1, and \<open>burton_3d_edge_length\<close> returns 0 for it.
\<close>

theorem burton_3d_edge_length_vertical:
  "num_dimensions vertical_edge_3d = 3 \<and>
   vertices_of_edge vertical_edge_3d 0 = [0, 1] \<and>
   coordinates vertical_edge_3d 0 = [0, 0, 0] \<and>
   coordinates vertical_edge_3d 1 = [0, 0, 1] \<and>
   burton_3d_edge_length vertical_edge_3d 0 = Inr 0 \<and>
   sqrt (\<Sum>d<3. (coordinates vertical_edge_3d 0 ! d - coordinates vertical_edge_3d 1 ! d)\<^sup>2) = 1"
  by (simp add: burton_3d_edge_length_def vertical_edge_3d_def sqr_def lessThan_Suc numeral_3_eq_3)

section \<open>The time step\<close>

lemma min_element_three:
  "[a, b, c] ! min_element [a, b, c] = min a (min b c) \<and> min_element [a, b, c] < 3"
proof -
  have "[1..<3] = [1, 2::nat]" by (simp add: upt_rec)
  then show ?thesis by (auto simp: min_element_def min_def)
qed

lemma time_step_fold_fst:
  "fst (fold (time_step_cell m) cs (a, b)) =
     fold (\<lambda>c a. max (cell_sound_speed m c / cell_min_length m c / accoustic (cfl m)) a) cs a"
  by (induction cs arbitrary: a b) (simp_all add: time_step_cell_def)

lemma time_step_fold_snd:
  "snd (fold (time_step_cell m) cs (a, b)) =
     fold (\<lambda>c b. max (\<bar>volumetric_rate_of_change (cell_residual m c)\<bar> / cell_volume m c / volume (cfl m)) b) cs b"
  by (induction cs arbitrary: a b) (simp_all add: time_step_cell_def)

lemma fold_max_Max:
  "fold (\<lambda>c (a::real). max (f c) a) cs a = Max (insert a (f ` set cs))"
proof (induction cs arbitrary: a)
  case Nil
  show ?case by simp
next
  case (Cons c cs)
  have "Max (insert (max (f c) a) (f ` set cs)) = Max (insert a (insert (f c) (f ` set cs)))"
    by (cases "set cs = {}") (simp_all add: max.commute max.left_commute)
  then show ?case by (simp add: Cons.IH)
qed

lemma dt_acc_inv_Max:
  "dt_acc_inv m =
     Max (insert 0 ((\<lambda>c. cell_sound_speed m c / cell_min_length m c / accoustic (cfl m)) ` set (cells m)))"
  by (simp add: dt_acc_inv_def time_step_inverses_def time_step_fold_fst fold_max_Max)

lemma dt_vol_inv_Max:
  "dt_vol_inv m =
     Max (insert 0 ((\<lambda>c. \<bar>volumetric_rate_of_change (cell_residual m c)\<bar> / cell_volume m c / volume (cfl m))
                     ` set (cells m)))"
  by (simp add: dt_vol_inv_def time_step_inverses_def time_step_fold_snd fold_max_Max)

lemma evaluate_time_step_result:
  assumes "dt_acc_inv m > 0" and "dt_vol_inv m > 0"
  shows "\<exists>s. evaluate_time_step m =
           Inr (m\<lparr> time_step := min (dt_acc m) (min (dt_vol m) (dt_growth m)) \<rparr>, s)"
proof -
  let ?dts = "[dt_acc m, dt_vol m, dt_growth m]"
  have "?dts ! min_element ?dts = min (dt_acc m) (min (dt_vol m) (dt_growth m))"
    and "min_element ?dts < 3"
    using min_element_three by blast+
  then show ?thesis
    using assms unfolding evaluate_time_step_def Let_def
    by (cases "min_element ?dts = 0"; cases "min_element ?dts = 1"; cases "min_element ?dts = 2") auto
qed

text \<open>The limits of the example mesh: the growth limit 1/10 is the smallest.\<close>

lemma two_cells_limits:
  "dt_acc_inv two_cells = 6" "dt_vol_inv two_cells = 1 / 2"
  "dt_acc two_cells = 1 / 6" "dt_vol two_cells = 2" "dt_growth two_cells = 1 / 10"
  by (simp_all add: dt_acc_def dt_vol_def dt_growth_def dt_acc_inv_def dt_vol_inv_def
        time_step_inverses_def time_step_cell_def volumetric_rate_of_change_def two_cells_simps)

lemma two_cells_time_step:
  "evaluate_time_step two_cells = Inr (two_cells\<lparr> time_step := 1 / 10 \<rparr>, ''growth'')"
proof -
  have "[1..<3] = [1, 2::nat]" by (simp add: upt_rec)
  then have "min_element [1 / 6, 2, 1 / 10] = 2" by (simp add: min_element_def)
  then show ?thesis
    by (simp add: evaluate_time_step_def two_cells_limits)
qed

text \<open>
  C4, as stated, fails: with growth constant 1 and previous step 1/10 the growth limit
  of the source is 1/10 (and it is the step selected), where \<open>(1 + CFL\<^sub>g) \<Delta>t\<close> is 1/5.
\<close>

theorem evaluate_time_step_growth_counterexample:
  "growth (cfl two_cells) = 1 \<and> time_step two_cells = 1 / 10 \<and>
   dt_growth two_cells \<noteq> (1 + growth (cfl two_cells)) * time_step two_cells \<and>
   evaluate_time_step two_cells = Inr (two_cells\<lparr> time_step := 1 / 10 \<rparr>, ''growth'') \<and>
   min (dt_acc two_cells) (min (dt_vol two_cells) ((1 + growth (cfl two_cells)) * time_step two_cells))
     \<noteq> 1 / 10"
  by (simp add: two_cells_limits two_cells_time_step two_cells_simps)

text \<open>
  C4, amended.  With \<open>\<Delta>t\<close> the previous step size, the growth limit computed by
  \<open>evaluate_time_step\<close> is \<open>CFL\<^sub>g \<Delta>t\<close> (the growth constant is the factor itself).
  When both inverse time scales are positive, \<open>evaluate_time_step\<close> returns, and the
  new time step is the minimum of the acoustic, volumetric and growth limits; it
  returns no other mesh than the one with that time step.
\<close>

theorem evaluate_time_step_minimum:
  "dt_growth m = growth (cfl m) * time_step m \<and>
   (0 < dt_acc_inv m \<and> 0 < dt_vol_inv m \<longrightarrow>
      (\<exists>s. evaluate_time_step m =
            Inr (m\<lparr> time_step := min (dt_acc m) (min (dt_vol m) (dt_growth m)) \<rparr>, s))) \<and>
   (\<forall>m' s. evaluate_time_step m = Inr (m', s) \<longrightarrow>
      m' = m\<lparr> time_step := min (dt_acc m) (min (dt_vol m) (dt_growth m)) \<rparr>)"
proof (intro conjI impI allI)
  show "dt_growth m = growth (cfl m) * time_step m"
    by (simp add: dt_growth_def)
next
  assume "0 < dt_acc_inv m \<and> 0 < dt_vol_inv m"
  then show "\<exists>s. evaluate_time_step m =
               Inr (m\<lparr> time_step := min (dt_acc m) (min (dt_vol m) (dt_growth m)) \<rparr>, s)"
    using evaluate_time_step_result by blast
next
  fix m' s
  assume r: "evaluate_time_step m = Inr (m', s)"
  then have "0 < dt_acc_inv m \<and> 0 < dt_vol_inv m"
    by (auto simp: evaluate_time_step_def split: if_splits)
  then obtain s' where "evaluate_time_step m =
      Inr (m\<lparr> time_step := min (dt_acc m) (min (dt_vol m) (dt_growth m)) \<rparr>, s')"
    using evaluate_time_step_result by blast
  with r show "m' = m\<lparr> time_step := min (dt_acc m) (min (dt_vol m) (dt_growth m)) \<rparr>"
    by simp
qed

theorem evaluate_time_step_minimum_witness:
  "0 < dt_acc_inv two_cells \<and> 0 < dt_vol_inv two_cells \<and>
   dt_growth two_cells = 1 / 10 \<and>
   (\<exists>s. evaluate_time_step two_cells = Inr (two_cells\<lparr> time_step := 1 / 10 \<rparr>, s))"
  using evaluate_time_step_minimum [of two_cells]
  by (simp add: two_cells_limits two_cells_simps)

text \<open>Cells that do not change their volume.\<close>

lemma zero_rate_no_volume_limit:
  assumes "\<forall>c\<in>set cs. volumetric_rate_of_change (cell_residual m c) = 0"
  shows "snd (time_step_inverses m cs) = 0"
proof -
  let ?f = "\<lambda>c. \<bar>volumetric_rate_of_change (cell_residual m c)\<bar> / cell_volume m c / volume (cfl m)"
  have "\<forall>c\<in>set cs. ?f c = 0"
    using assms by simp
  then have eq: "insert 0 (?f ` set cs) = {0}"
    by blast
  have "snd (time_step_inverses m cs) = Max (insert 0 (?f ` set cs))"
    by (simp only: time_step_inverses_def time_step_fold_snd fold_max_Max)
  also have "\<dots> = Max {0}"
    by (simp only: eq)
  finally show ?thesis by simp
qed

lemma zero_rate_skipped:
  "snd (time_step_inverses m cs) =
   snd (time_step_inverses m (filter (\<lambda>c. volumetric_rate_of_change (cell_residual m c) \<noteq> 0) cs))"
proof -
  let ?f = "\<lambda>c. \<bar>volumetric_rate_of_change (cell_residual m c)\<bar> / cell_volume m c / volume (cfl m)"
  have zero: "\<And>c. volumetric_rate_of_change (cell_residual m c) = 0 \<Longrightarrow> ?f c = 0"
    by simp
  have "insert 0 (?f ` set cs) =
        insert 0 (?f ` set (filter (\<lambda>c. volumetric_rate_of_change (cell_residual m c) \<noteq> 0) cs))"
  proof (rule set_eqI, rule iffI)
    fix x
    assume "x \<in> insert 0 (?f ` set cs)"
    then consider "x = 0" | c where "c \<in> set cs" "x = ?f c" by blast
    then show "x \<in> insert 0 (?f ` set (filter (\<lambda>c. volumetric_rate_of_change (cell_residual m c) \<noteq> 0) cs))"
    proof cases
      case 1
      then show ?thesis by simp
    next
      case 2
      show ?thesis
      proof (cases "volumetric_rate_of_change (cell_residual m c) = 0")
        case True
        with zero 2 show ?thesis by simp
      next
        case False
        with 2 have "c \<in> set (filter (\<lambda>c. volumetric_rate_of_change (cell_residual m c) \<noteq> 0) cs)"
          by simp
        with 2 show ?thesis by blast
      qed
    qed
  next
    fix x
    assume "x \<in> insert 0 (?f ` set (filter (\<lambda>c. volumetric_rate_of_change (cell_residual m c) \<noteq> 0) cs))"
    then show "x \<in> insert 0 (?f ` set cs)" by auto
  qed
  then show ?thesis
    by (simp only: time_step_inverses_def time_step_fold_snd fold_max_Max)
qed


lemma still_cells_simps:
  "cells still_cells = [0, 1]"
  "volumetric_rate_of_change (cell_residual still_cells c) = 0"
  by (simp_all add: still_cells_def two_cells_simps volumetric_rate_of_change_def zero_flux_def)

lemma zero_rate_assertion:
  assumes "\<forall>c\<in>set (cells m). volumetric_rate_of_change (cell_residual m c) = 0"
  shows "evaluate_time_step m = Inl (AssertionFailed ''infinite delta t'')"
  using zero_rate_no_volume_limit [OF assms]
  by (simp add: evaluate_time_step_def dt_vol_inv_def)

text \<open>
  C5, as stated, fails: on the example mesh with dV/dt = 0 in both cells,
  \<open>evaluate_time_step\<close> does not return a time step; its assertion fails.
\<close>

theorem evaluate_time_step_still_counterexample:
  "cells still_cells = [0, 1] \<and>
   volumetric_rate_of_change (cell_residual still_cells 0) = 0 \<and>
   volumetric_rate_of_change (cell_residual still_cells 1) = 0 \<and>
   evaluate_time_step still_cells = Inl (AssertionFailed ''infinite delta t'')"
  by (simp add: still_cells_simps zero_rate_assertion)

text \<open>
  C5, amended.  A cell with dV/dt = 0 is skipped by the volumetric limit: the maximum
  \<open>dt_vol_inv\<close> is the one taken over the cells with dV/dt \<noteq> 0 alone.  When every
  cell has dV/dt = 0, \<open>evaluate_time_step\<close> does not complete: the assertion
  \<^verbatim>\<open>dt_acc_inv > 0 && dt_vol_inv > 0\<close> ("infinite delta t") fails.
\<close>

theorem evaluate_time_step_zero_volume_rate:
  "dt_vol_inv m =
     snd (time_step_inverses m
            (filter (\<lambda>c. volumetric_rate_of_change (cell_residual m c) \<noteq> 0) (cells m))) \<and>
   ((\<forall>c\<in>set (cells m). volumetric_rate_of_change (cell_residual m c) = 0) \<longrightarrow>
      evaluate_time_step m = Inl (AssertionFailed ''infinite delta t''))"
  using zero_rate_skipped [of m "cells m"] zero_rate_assertion [of m]
  by (simp add: dt_vol_inv_def)

theorem evaluate_time_step_zero_volume_rate_witness:
  "volumetric_rate_of_change (cell_residual still_cells 0) = 0 \<and>
   volumetric_rate_of_change (cell_residual still_cells 1) = 0 \<and>
   dt_vol_inv still_cells = 0 \<and>
   evaluate_time_step still_cells = Inl (AssertionFailed ''infinite delta t'')"
  using evaluate_time_step_zero_volume_rate [of still_cells]
  by (simp add: still_cells_simps time_step_inverses_def)

section \<open>Subcell forces and the cell residual\<close>

lemma front_simps:
  "front [] = Inl EmptyRange" "front (x # xs) = Inr x"
  by (simp_all add: front_def)

lemma front_hd: "xs \<noteq> [] \<Longrightarrow> front xs = Inr (hd xs)"
  by (cases xs) (simp_all add: front_def)

lemma bind_result_simps:
  "bind_result (Inl e) f = Inl e" "bind_result (Inr x) f = f x"
  by (simp_all add: bind_result_def)

lemma subcell_force_residual:
  "subcell_force (m\<lparr> cell_residual := X \<rparr>) cl cn pt = subcell_force m cl cn pt"
  by (simp add: subcell_force_def)

lemma corner_update_residual:
  "corner_update (m\<lparr> cell_residual := X \<rparr>) cl = corner_update m cl"
  by (simp add: corner_update_def subcell_force_residual fun_eq_iff)

lemma cell_residual_value_residual:
  "cell_residual_value (m\<lparr> cell_residual := X \<rparr>) cl = cell_residual_value m cl"
  by (simp add: cell_residual_value_def corner_update_residual)

lemma force_corner_eq:
  "force_corner cl cn m =
     (if vertices_of_corner m cn = [] then Inl EmptyRange
      else Inr (m\<lparr> cell_residual := (cell_residual m)
                   (cl := corner_update m cl (cell_residual m cl) cn) \<rparr>))"
  by (cases "vertices_of_corner m cn")
    (simp_all add: force_corner_def front_simps bind_result_simps corner_update_def)

lemma force_corners_eq:
  "for_each cns (force_corner cl) m =
     (if \<forall>cn\<in>set cns. vertices_of_corner m cn \<noteq> []
      then Inr (m\<lparr> cell_residual := (cell_residual m)
                   (cl := foldl (corner_update m cl) (cell_residual m cl) cns) \<rparr>)
      else Inl EmptyRange)"
proof (induction cns arbitrary: m)
  case Nil
  show ?case by simp
next
  case (Cons cn cns)
  show ?case
  proof (cases "vertices_of_corner m cn = []")
    case True
    then have "force_corner cl cn m = Inl EmptyRange" by (simp add: force_corner_eq)
    with True show ?thesis by auto
  next
    case False
    let ?m1 = "m\<lparr> cell_residual := (cell_residual m)
                   (cl := corner_update m cl (cell_residual m cl) cn) \<rparr>"
    have step: "force_corner cl cn m = Inr ?m1"
      using False by (simp add: force_corner_eq)
    have "for_each (cn # cns) (force_corner cl) m = for_each cns (force_corner cl) ?m1"
      by (simp add: step)
    also have "\<dots> =
        (if \<forall>cn\<in>set cns. vertices_of_corner ?m1 cn \<noteq> []
         then Inr (?m1\<lparr> cell_residual := (cell_residual ?m1)
                     (cl := foldl (corner_update ?m1 cl) (cell_residual ?m1 cl) cns) \<rparr>)
         else Inl EmptyRange)"
      by (rule Cons.IH)
    finally have eq: "for_each (cn # cns) (force_corner cl) m =
        (if \<forall>cn\<in>set cns. vertices_of_corner ?m1 cn \<noteq> []
         then Inr (?m1\<lparr> cell_residual := (cell_residual ?m1)
                     (cl := foldl (corner_update ?m1 cl) (cell_residual ?m1 cl) cns) \<rparr>)
         else Inl EmptyRange)" .
    have A: "vertices_of_corner ?m1 = vertices_of_corner m" by simp
    have B: "corner_update ?m1 cl = corner_update m cl" by (rule corner_update_residual)
    have C: "cell_residual ?m1 cl = corner_update m cl (cell_residual m cl) cn" by simp
    have D: "?m1\<lparr> cell_residual := (cell_residual ?m1)(cl := X) \<rparr> =
             m\<lparr> cell_residual := (cell_residual m)(cl := X) \<rparr>" for X by simp
    have E: "(\<forall>x\<in>set (cn # cns). vertices_of_corner m x \<noteq> []) =
             (\<forall>x\<in>set cns. vertices_of_corner m x \<noteq> [])"
      using False by simp
    show ?thesis
      unfolding eq A B C D E foldl_Cons ..
  qed
qed

lemma force_cell_eq:
  "force_cell cl m =
     (if \<forall>cn\<in>set (corners_of_cell m cl). vertices_of_corner m cn \<noteq> []
      then Inr (m\<lparr> cell_residual := (cell_residual m)(cl := cell_residual_value m cl) \<rparr>)
      else Inl EmptyRange)"
  by (simp add: force_cell_def force_corners_eq corner_update_residual cell_residual_value_def)

lemma force_cells_eq:
  "for_each cs force_cell m =
     (if \<forall>c\<in>set cs. \<forall>cn\<in>set (corners_of_cell m c). vertices_of_corner m cn \<noteq> []
      then Inr (m\<lparr> cell_residual :=
                    (\<lambda>c. if c \<in> set cs then cell_residual_value m c else cell_residual m c) \<rparr>)
      else Inl EmptyRange)"
proof (induction cs arbitrary: m)
  case Nil
  show ?case by simp
next
  case (Cons c cs)
  show ?case
  proof (cases "\<forall>cn\<in>set (corners_of_cell m c). vertices_of_corner m cn \<noteq> []")
    case False
    then have "force_cell c m = Inl EmptyRange" by (simp add: force_cell_eq)
    with False show ?thesis by auto
  next
    case True
    let ?m1 = "m\<lparr> cell_residual := (cell_residual m)(c := cell_residual_value m c) \<rparr>"
    have step: "force_cell c m = Inr ?m1"
      using True by (simp add: force_cell_eq)
    have "for_each (c # cs) force_cell m = for_each cs force_cell ?m1"
      by (simp add: step)
    also have "\<dots> =
        (if \<forall>c\<in>set cs. \<forall>cn\<in>set (corners_of_cell ?m1 c). vertices_of_corner ?m1 cn \<noteq> []
         then Inr (?m1\<lparr> cell_residual :=
                    (\<lambda>c. if c \<in> set cs then cell_residual_value ?m1 c else cell_residual ?m1 c) \<rparr>)
         else Inl EmptyRange)"
      by (rule Cons.IH)
    finally have eq: "for_each (c # cs) force_cell m =
        (if \<forall>c\<in>set cs. \<forall>cn\<in>set (corners_of_cell ?m1 c). vertices_of_corner ?m1 cn \<noteq> []
         then Inr (?m1\<lparr> cell_residual :=
                    (\<lambda>c. if c \<in> set cs then cell_residual_value ?m1 c else cell_residual ?m1 c) \<rparr>)
         else Inl EmptyRange)" .
    have A: "vertices_of_corner ?m1 = vertices_of_corner m" "corners_of_cell ?m1 = corners_of_cell m"
      by simp_all
    have B: "cell_residual_value ?m1 = cell_residual_value m"
      by (simp add: fun_eq_iff cell_residual_value_residual)
    have D: "?m1\<lparr> cell_residual := (\<lambda>x. if x \<in> set cs then cell_residual_value m x else cell_residual ?m1 x) \<rparr> =
             m\<lparr> cell_residual :=
                 (\<lambda>x. if x \<in> set (c # cs) then cell_residual_value m x else cell_residual m x) \<rparr>"
      by (auto simp: fun_eq_iff intro!: arg_cong2[where f="cell_residual_update"])
    have E: "(\<forall>x\<in>set (c # cs). \<forall>cn\<in>set (corners_of_cell m x). vertices_of_corner m cn \<noteq> []) =
             (\<forall>x\<in>set cs. \<forall>cn\<in>set (corners_of_cell m x). vertices_of_corner m cn \<noteq> [])"
      using True by simp
    show ?thesis
      unfolding eq A B D E ..
  qed
qed

lemma sum_list_nth_map:
  "(\<Sum>j\<leftarrow>[0..<D]. g j * map f [0..<D] ! j) = (\<Sum>j\<leftarrow>[0..<D]. g j * f j)"
  by (rule arg_cong[where f=sum_list]) (simp cong: map_cong)

lemma subcell_force_nth:
  assumes "d < num_dimensions m"
  shows "subcell_force m cl cn pt ! d =
           cell_pressure m cl * corner_normal m cn ! d +
           (\<Sum>j\<leftarrow>[0..<num_dimensions m].
              corner_matrix m cn ! d ! j * (cell_velocity m cl ! j - node_velocity m pt ! j))"
  using assms by (simp add: subcell_force_def ax_plus_y_def Let_def sum_list_nth_map)

lemma foldl_corner_update_momentum:
  "d < num_dimensions m \<Longrightarrow>
   momentum_rate (foldl (corner_update m cl) r cns) ! d =
     momentum_rate r ! d -
     (\<Sum>cn\<leftarrow>cns. subcell_force m cl cn (hd (vertices_of_corner m cn)) ! d)"
  by (induction cns arbitrary: r) (simp_all add: corner_update_def compute_update_def)

lemma foldl_corner_update_energy:
  "energy_rate (foldl (corner_update m cl) r cns) =
     energy_rate r -
     (\<Sum>cn\<leftarrow>cns. dot_product (num_dimensions m)
        (subcell_force m cl cn (hd (vertices_of_corner m cn)))
        (node_velocity m (hd (vertices_of_corner m cn))))"
  by (induction cns arbitrary: r) (simp_all add: corner_update_def compute_update_def)

lemma foldl_corner_update_volume:
  "volume_rate (foldl (corner_update m cl) r cns) =
     volume_rate r +
     (\<Sum>cn\<leftarrow>cns. dot_product (num_dimensions m) (corner_normal m cn)
        (node_velocity m (hd (vertices_of_corner m cn))))"
  by (induction cns arbitrary: r) (simp_all add: corner_update_def compute_update_def)

lemma foldl_corner_update_mass:
  "mass_rate (foldl (corner_update m cl) r cns) = mass_rate r"
  by (induction cns arbitrary: r) (simp_all add: corner_update_def compute_update_def)

text \<open>
  C3.  When every corner of every cell has a vertex, \<open>evaluate_forces\<close> returns, and
  for every cell \<open>cl\<close> and every corner \<open>cn\<close> of \<open>cl\<close> with vertex \<open>v\<close> the subcell
  force is \<open>F\<^sub>d = p\<^sub>c N\<^sub>d + \<Sum>\<^sub>j M\<^sub>d\<^sub>j (u\<^sub>c\<^sub>j - u\<^sub>v\<^sub>j)\<close>, with the pressure and
  velocity of the cell, the nodal velocity of \<open>v\<close> and the matrix and normal of the
  corner.  The residual of \<open>cl\<close> accumulates them over the corners of the cell: its
  momentum rate is \<open>- \<Sum> F\<close>, its energy rate \<open>- \<Sum> F \<cdot> u\<^sub>v\<close>, its volume rate
  \<open>\<Sum> N \<cdot> u\<^sub>v\<close> and its mass rate 0.
\<close>

theorem evaluate_forces_subcell_force:
  assumes "\<forall>c\<in>set (cells m). \<forall>cn\<in>set (corners_of_cell m c). vertices_of_corner m cn \<noteq> []"
    and "cl \<in> set (cells m)"
  shows "\<exists>m'. evaluate_forces m = Inr m' \<and>
     (\<forall>cn\<in>set (corners_of_cell m cl). \<forall>d<num_dimensions m.
        subcell_force m cl cn (hd (vertices_of_corner m cn)) ! d =
          cell_pressure m cl * corner_normal m cn ! d +
          (\<Sum>j\<leftarrow>[0..<num_dimensions m]. corner_matrix m cn ! d ! j *
             (cell_velocity m cl ! j - node_velocity m (hd (vertices_of_corner m cn)) ! j))) \<and>
     (\<forall>d<num_dimensions m.
        momentum_rate (cell_residual m' cl) ! d =
          - (\<Sum>cn\<leftarrow>corners_of_cell m cl. subcell_force m cl cn (hd (vertices_of_corner m cn)) ! d)) \<and>
     energy_rate (cell_residual m' cl) =
       - (\<Sum>cn\<leftarrow>corners_of_cell m cl. dot_product (num_dimensions m)
            (subcell_force m cl cn (hd (vertices_of_corner m cn)))
            (node_velocity m (hd (vertices_of_corner m cn)))) \<and>
     volume_rate (cell_residual m' cl) =
       (\<Sum>cn\<leftarrow>corners_of_cell m cl. dot_product (num_dimensions m) (corner_normal m cn)
            (node_velocity m (hd (vertices_of_corner m cn)))) \<and>
     mass_rate (cell_residual m' cl) = 0"
  using assms
  by (simp add: evaluate_forces_def force_cells_eq subcell_force_nth cell_residual_value_def
        foldl_corner_update_momentum foldl_corner_update_energy foldl_corner_update_volume
        foldl_corner_update_mass zero_flux_def vector_fill_def)

text \<open>
  On the example mesh, corner 2 of cell 0 is at vertex 4: the cell has pressure 1 and
  velocity (1, 0), the vertex velocity (2, 2), the corner matrix is ((2, 1), (1, 2))
  and the corner normal (1/2, 1/2), so the force is (-7/2, -9/2).
\<close>

theorem evaluate_forces_subcell_force_witness:
  "\<exists>m'. evaluate_forces two_cells = Inr m' \<and>
     subcell_force two_cells 0 2 4 ! 0 = - 7 / 2 \<and> subcell_force two_cells 0 2 4 ! 1 = - 9 / 2 \<and>
     momentum_rate (cell_residual m' 0) ! 0 = 5 \<and> mass_rate (cell_residual m' 0) = 0"
proof -
  have pre: "\<forall>c\<in>set (cells two_cells). \<forall>cn\<in>set (corners_of_cell two_cells c).
      vertices_of_corner two_cells cn \<noteq> []"
    by (simp add: two_cells_simps)
  have cl: "0 \<in> set (cells two_cells)"
    by (simp add: two_cells_simps)
  from evaluate_forces_subcell_force [OF pre cl] obtain m' where
    r: "evaluate_forces two_cells = Inr m'"
    and F: "\<forall>cn\<in>set (corners_of_cell two_cells 0). \<forall>d<num_dimensions two_cells.
        subcell_force two_cells 0 cn (hd (vertices_of_corner two_cells cn)) ! d =
          cell_pressure two_cells 0 * corner_normal two_cells cn ! d +
          (\<Sum>j\<leftarrow>[0..<num_dimensions two_cells]. corner_matrix two_cells cn ! d ! j *
             (cell_velocity two_cells 0 ! j -
              node_velocity two_cells (hd (vertices_of_corner two_cells cn)) ! j))"
    and P: "\<forall>d<num_dimensions two_cells.
        momentum_rate (cell_residual m' 0) ! d =
          - (\<Sum>cn\<leftarrow>corners_of_cell two_cells 0.
               subcell_force two_cells 0 cn (hd (vertices_of_corner two_cells cn)) ! d)"
    and Z: "mass_rate (cell_residual m' 0) = 0"
    by blast
  have up: "[0..<2] = [0, 1::nat]" by (simp add: upt_rec)
  have f: "subcell_force two_cells 0 0 0 ! 0 = - 1 / 2" "subcell_force two_cells 0 1 1 ! 0 = - 1 / 2"
    "subcell_force two_cells 0 2 4 ! 0 = - 7 / 2" "subcell_force two_cells 0 3 3 ! 0 = - 1 / 2"
    "subcell_force two_cells 0 2 4 ! 1 = - 9 / 2"
    using F by (simp_all add: two_cells_simps up)
  have "momentum_rate (cell_residual m' 0) ! 0 = 5"
    using P f by (simp add: two_cells_simps)
  with f Z r show ?thesis by blast
qed

section \<open>Corner matrices and corner normals\<close>

lemma corner_coef_wedge_eq:
  "corner_coef_wedge zc cn w m =
     m\<lparr> corner_matrix := (corner_matrix m)
           (cn := outer_product (num_dimensions m) (wedge_facet_normal m w) (wedge_facet_normal m w)
                    (corner_matrix m cn) (zc * wedge_facet_area m w)),
        corner_normal := (corner_normal m)
           (cn := map (\<lambda>d. corner_normal m cn ! d + wedge_facet_area m w * wedge_facet_normal m w ! d)
                    [0..<num_dimensions m]) \<rparr>"
  by (simp add: corner_coef_wedge_def Let_def)

lemma corner_wedges_fold:
  "fold (corner_coef_wedge zc cn) ws m =
     m\<lparr> corner_matrix := (corner_matrix m)
           (cn := foldl (\<lambda>M w. outer_product (num_dimensions m) (wedge_facet_normal m w)
                                  (wedge_facet_normal m w) M (zc * wedge_facet_area m w))
                    (corner_matrix m cn) ws),
        corner_normal := (corner_normal m)
           (cn := foldl (\<lambda>N w. map (\<lambda>d. N ! d + wedge_facet_area m w * wedge_facet_normal m w ! d)
                                    [0..<num_dimensions m])
                    (corner_normal m cn) ws) \<rparr>"
proof (induction ws arbitrary: m)
  case Nil
  show ?case by simp
next
  case (Cons w ws)
  have "fold (corner_coef_wedge zc cn) (w # ws) m =
        fold (corner_coef_wedge zc cn) ws (corner_coef_wedge zc cn w m)"
    by simp
  also note Cons.IH
  finally show ?case
    unfolding corner_coef_wedge_eq
    by (auto simp: fun_eq_iff intro!: arg_cong2[where f="corner_matrix_update"]
          arg_cong2[where f="corner_normal_update"])
qed

lemma corner_values_frame:
  "corner_matrix_value (m\<lparr> corner_matrix := X, corner_normal := Y \<rparr>) = corner_matrix_value m"
  "corner_normal_value (m\<lparr> corner_matrix := X, corner_normal := Y \<rparr>) = corner_normal_value m"
  by (simp_all add: fun_eq_iff corner_matrix_value_def corner_normal_value_def)

lemma corner_coef_eq:
  "corner_coef cn m =
     (if cells_of_corner m cn \<noteq> [] \<and> vertices_of_corner m cn \<noteq> []
      then Inr (m\<lparr> corner_matrix := (corner_matrix m)(cn := corner_matrix_value m cn),
                    corner_normal := (corner_normal m)(cn := corner_normal_value m cn) \<rparr>)
      else Inl EmptyRange)"
proof (cases "cells_of_corner m cn")
  case Nil
  then show ?thesis
    by (simp add: corner_coef_def Let_def front_simps bind_result_simps)
next
  case c: (Cons cl cls)
  show ?thesis
  proof (cases "vertices_of_corner m cn")
    case Nil
    with c show ?thesis
      by (simp add: corner_coef_def Let_def front_simps bind_result_simps)
  next
    case (Cons vt vts)
    with c show ?thesis
      by (simp add: corner_coef_def Let_def front_simps bind_result_simps corner_wedges_fold
            corner_matrix_value_def corner_normal_value_def)
  qed
qed

lemma corner_coefs_eq:
  "for_each cns corner_coef m =
     (if \<forall>cn\<in>set cns. cells_of_corner m cn \<noteq> [] \<and> vertices_of_corner m cn \<noteq> []
      then Inr (m\<lparr> corner_matrix :=
                      (\<lambda>c. if c \<in> set cns then corner_matrix_value m c else corner_matrix m c),
                    corner_normal :=
                      (\<lambda>c. if c \<in> set cns then corner_normal_value m c else corner_normal m c) \<rparr>)
      else Inl EmptyRange)"
proof (induction cns arbitrary: m)
  case Nil
  show ?case by simp
next
  case (Cons cn cns)
  show ?case
  proof (cases "cells_of_corner m cn \<noteq> [] \<and> vertices_of_corner m cn \<noteq> []")
    case False
    then have "corner_coef cn m = Inl EmptyRange" by (simp add: corner_coef_eq)
    with False show ?thesis by auto
  next
    case True
    let ?m1 = "m\<lparr> corner_matrix := (corner_matrix m)(cn := corner_matrix_value m cn),
                  corner_normal := (corner_normal m)(cn := corner_normal_value m cn) \<rparr>"
    have step: "corner_coef cn m = Inr ?m1"
      using True by (simp add: corner_coef_eq)
    have "for_each (cn # cns) corner_coef m = for_each cns corner_coef ?m1"
      by (simp add: step)
    also have "\<dots> =
        (if \<forall>cn\<in>set cns. cells_of_corner ?m1 cn \<noteq> [] \<and> vertices_of_corner ?m1 cn \<noteq> []
         then Inr (?m1\<lparr> corner_matrix :=
                      (\<lambda>c. if c \<in> set cns then corner_matrix_value ?m1 c else corner_matrix ?m1 c),
                    corner_normal :=
                      (\<lambda>c. if c \<in> set cns then corner_normal_value ?m1 c else corner_normal ?m1 c) \<rparr>)
         else Inl EmptyRange)"
      by (rule Cons.IH)
    finally have eq: "for_each (cn # cns) corner_coef m =
        (if \<forall>cn\<in>set cns. cells_of_corner ?m1 cn \<noteq> [] \<and> vertices_of_corner ?m1 cn \<noteq> []
         then Inr (?m1\<lparr> corner_matrix :=
                      (\<lambda>c. if c \<in> set cns then corner_matrix_value ?m1 c else corner_matrix ?m1 c),
                    corner_normal :=
                      (\<lambda>c. if c \<in> set cns then corner_normal_value ?m1 c else corner_normal ?m1 c) \<rparr>)
         else Inl EmptyRange)" .
    have A: "vertices_of_corner ?m1 = vertices_of_corner m" "cells_of_corner ?m1 = cells_of_corner m"
      by simp_all
    have B: "corner_matrix_value ?m1 = corner_matrix_value m" "corner_normal_value ?m1 = corner_normal_value m"
      by (rule corner_values_frame)+
    have D: "?m1\<lparr> corner_matrix :=
                      (\<lambda>c. if c \<in> set cns then corner_matrix_value m c else corner_matrix ?m1 c),
                    corner_normal :=
                      (\<lambda>c. if c \<in> set cns then corner_normal_value m c else corner_normal ?m1 c) \<rparr> =
             m\<lparr> corner_matrix :=
                      (\<lambda>c. if c \<in> set (cn # cns) then corner_matrix_value m c else corner_matrix m c),
                    corner_normal :=
                      (\<lambda>c. if c \<in> set (cn # cns) then corner_normal_value m c else corner_normal m c) \<rparr>"
      by (auto simp: fun_eq_iff intro!: arg_cong2[where f="corner_matrix_update"]
            arg_cong2[where f="corner_normal_update"])
    have E: "(\<forall>x\<in>set (cn # cns). cells_of_corner m x \<noteq> [] \<and> vertices_of_corner m x \<noteq> []) =
             (\<forall>x\<in>set cns. cells_of_corner m x \<noteq> [] \<and> vertices_of_corner m x \<noteq> [])"
      using True by simp
    show ?thesis
      unfolding eq A B D E ..
  qed
qed

lemma outer_product_nth:
  "i < D \<Longrightarrow> j < D \<Longrightarrow> outer_product D a b C x ! i ! j = C ! i ! j + x * a ! i * b ! j"
  by (simp add: outer_product_def)

lemma foldl_outer_product_nth:
  "i < D \<Longrightarrow> j < D \<Longrightarrow>
   foldl (\<lambda>M w. outer_product D (n w) (n w) M (z * l w)) M0 ws ! i ! j =
     M0 ! i ! j + (\<Sum>w\<leftarrow>ws. z * l w * (n w ! i * n w ! j))"
  by (induction ws arbitrary: M0) (simp_all add: outer_product_nth algebra_simps)

lemma foldl_normal_nth:
  "d < D \<Longrightarrow>
   foldl (\<lambda>N w. map (\<lambda>d. N ! d + l w * n w ! d) [0..<D]) N0 ws ! d =
     N0 ! d + (\<Sum>w\<leftarrow>ws. l w * n w ! d)"
  by (induction ws arbitrary: N0) (simp_all add: add.assoc)

lemma fill_nth:
  "d < D \<Longrightarrow> vector_fill D x ! d = x"
  "i < D \<Longrightarrow> j < D \<Longrightarrow> matrix_fill D x ! i ! j = x"
  by (simp_all add: vector_fill_def matrix_fill_def)

text \<open>
  C1.  When every corner of the mesh has a cell and a vertex, \<open>evaluate_corner_coef\<close>
  returns, and for every corner \<open>cn\<close> with cell \<open>c\<close> it leaves, with the impedance
  \<open>z = \<rho>\<^sub>c c\<^sub>c\<close> (the density of the cell times its sound speed, no velocity jump
  term), the corner matrix \<open>M\<^sub>i\<^sub>j = \<Sum>\<^sub>w z l\<^sub>w n\<^sub>w\<^sub>i n\<^sub>w\<^sub>j\<close> and the corner
  normal \<open>N\<^sub>d = \<Sum>\<^sub>w l\<^sub>w n\<^sub>w\<^sub>d\<close>, the sums running over the wedges \<open>w\<close> of \<open>cn\<close>
  with facet area \<open>l\<^sub>w\<close> and facet normal \<open>n\<^sub>w\<close>.
\<close>

theorem evaluate_corner_coef_sums:
  assumes "\<forall>cn\<in>set (corners m). cells_of_corner m cn \<noteq> [] \<and> vertices_of_corner m cn \<noteq> []"
    and "cn \<in> set (corners m)"
  shows "\<exists>m'. evaluate_corner_coef m = Inr m' \<and>
     (\<forall>i<num_dimensions m. \<forall>j<num_dimensions m.
        corner_matrix m' cn ! i ! j =
          (\<Sum>w\<leftarrow>wedges_of_corner m cn.
             (cell_density m (hd (cells_of_corner m cn)) * cell_sound_speed m (hd (cells_of_corner m cn))) *
             wedge_facet_area m w * (wedge_facet_normal m w ! i * wedge_facet_normal m w ! j))) \<and>
     (\<forall>d<num_dimensions m.
        corner_normal m' cn ! d =
          (\<Sum>w\<leftarrow>wedges_of_corner m cn. wedge_facet_area m w * wedge_facet_normal m w ! d))"
  using assms
  by (simp add: evaluate_corner_coef_def corner_coefs_eq corner_matrix_value_def
        corner_normal_value_def foldl_outer_product_nth foldl_normal_nth fill_nth)

text \<open>
  On the example mesh, corner 7 belongs to cell 1 (density 1/2, sound speed 6, so
  \<open>z = 3\<close>) and has the wedges 14 and 15 of area 1/2 with normals (0, 1) and (-1, 0).
\<close>

theorem evaluate_corner_coef_sums_witness:
  "\<exists>m'. evaluate_corner_coef two_cells = Inr m' \<and>
     corner_matrix m' 7 ! 0 ! 0 = 3 / 2 \<and> corner_matrix m' 7 ! 0 ! 1 = 0 \<and>
     corner_matrix m' 7 ! 1 ! 0 = 0 \<and> corner_matrix m' 7 ! 1 ! 1 = 3 / 2 \<and>
     corner_normal m' 7 ! 0 = - 1 / 2 \<and> corner_normal m' 7 ! 1 = 1 / 2"
proof -
  have pre: "\<forall>cn\<in>set (corners two_cells).
      cells_of_corner two_cells cn \<noteq> [] \<and> vertices_of_corner two_cells cn \<noteq> []"
    by (simp add: two_cells_simps)
  have cn: "7 \<in> set (corners two_cells)"
    by (simp add: two_cells_simps)
  from evaluate_corner_coef_sums [OF pre cn] obtain m' where
    r: "evaluate_corner_coef two_cells = Inr m'"
    and M: "\<forall>i<num_dimensions two_cells. \<forall>j<num_dimensions two_cells.
        corner_matrix m' 7 ! i ! j =
          (\<Sum>w\<leftarrow>wedges_of_corner two_cells 7.
             (cell_density two_cells (hd (cells_of_corner two_cells 7)) *
              cell_sound_speed two_cells (hd (cells_of_corner two_cells 7))) *
             wedge_facet_area two_cells w *
             (wedge_facet_normal two_cells w ! i * wedge_facet_normal two_cells w ! j))"
    and N: "\<forall>d<num_dimensions two_cells.
        corner_normal m' 7 ! d =
          (\<Sum>w\<leftarrow>wedges_of_corner two_cells 7.
             wedge_facet_area two_cells w * wedge_facet_normal two_cells w ! d)"
    by blast
  have "corner_matrix m' 7 ! 0 ! 0 = 3 / 2" "corner_matrix m' 7 ! 0 ! 1 = 0"
    "corner_matrix m' 7 ! 1 ! 0 = 0" "corner_matrix m' 7 ! 1 ! 1 = 3 / 2"
    using M by (simp_all add: two_cells_simps)
  moreover have "corner_normal m' 7 ! 0 = - 1 / 2" "corner_normal m' 7 ! 1 = 1 / 2"
    using N by (simp_all add: two_cells_simps)
  ultimately show ?thesis using r by blast
qed

section \<open>The nodal solver: prescribed velocity\<close>

lemma map_at_simps:
  "bm tag = None \<Longrightarrow> map_at bm tag = Inl OutOfRange"
  "bm tag = Some b \<Longrightarrow> map_at bm tag = Inr b"
  by (simp_all add: map_at_def)

lemma map_at_Inr: "map_at bm tag = Inr b \<longleftrightarrow> bm tag = Some b"
  by (simp add: map_at_def split: option.splits)

lemma bind_result_Inr:
  "bind_result r f = Inr y \<longleftrightarrow> (\<exists>x. r = Inr x \<and> f x = Inr y)"
  by (cases r) (simp_all add: bind_result_def)

text \<open>The nodal velocity does not read the field it is written to.\<close>

lemma add_corner_frame:
  "add_corner (m\<lparr> node_velocity := X \<rparr>) = add_corner m"
  by (simp add: add_corner_def fun_eq_iff)

lemma point_system_frame:
  "point_system (m\<lparr> node_velocity := X \<rparr>) vt = point_system m vt"
  by (simp add: point_system_def add_corner_frame)

lemma apply_condition_frame:
  "apply_condition bm (m\<lparr> node_velocity := X \<rparr>) = apply_condition bm m"
  by (simp add: apply_condition_def fun_eq_iff Let_def cong: if_cong option.case_cong)

lemma apply_wedge_frame:
  "apply_wedge bm (m\<lparr> node_velocity := X \<rparr>) = apply_wedge bm m"
  by (simp add: apply_wedge_def apply_condition_frame fun_eq_iff)

lemma nodal_velocity_frame:
  "nodal_velocity S bm (m\<lparr> node_velocity := X \<rparr>) vt = nodal_velocity S bm m vt"
  by (simp add: nodal_velocity_def point_system_frame apply_wedge_frame filter_boundary_def
        cong: if_cong option.case_cong)

lemma evaluate_nodal_vertex_Inr:
  "evaluate_nodal_vertex S bm vt m = Inr m1 \<longleftrightarrow>
     (\<exists>u. nodal_velocity S bm m vt = Inr u \<and> m1 = m\<lparr> node_velocity := (node_velocity m)(vt := u) \<rparr>)"
  by (auto simp: evaluate_nodal_vertex_def bind_result_Inr)

lemma nodal_loop_values:
  "for_each vs (evaluate_nodal_vertex S bm) m = Inr m' \<Longrightarrow>
     (\<forall>v\<in>set vs. nodal_velocity S bm m v = Inr (node_velocity m' v)) \<and>
     (\<forall>v. v \<notin> set vs \<longrightarrow> node_velocity m' v = node_velocity m v)"
proof (induction vs arbitrary: m)
  case Nil
  then show ?case by simp
next
  case (Cons x xs)
  from Cons.prems obtain m1 where
    s: "evaluate_nodal_vertex S bm x m = Inr m1" and r: "for_each xs (evaluate_nodal_vertex S bm) m1 = Inr m'"
    by (auto split: sum.splits)
  from s obtain u where u: "nodal_velocity S bm m x = Inr u"
    and m1: "m1 = m\<lparr> node_velocity := (node_velocity m)(x := u) \<rparr>"
    by (auto simp: evaluate_nodal_vertex_Inr)
  have fr: "nodal_velocity S bm m1 v = nodal_velocity S bm m v" for v
    by (simp add: m1 nodal_velocity_frame)
  from Cons.IH[OF r] have
    in_xs: "\<forall>v\<in>set xs. nodal_velocity S bm m v = Inr (node_velocity m' v)"
    and out_xs: "\<forall>v. v \<notin> set xs \<longrightarrow> node_velocity m' v = node_velocity m1 v"
    by (simp_all add: fr)
  have "nodal_velocity S bm m x = Inr (node_velocity m' x)"
  proof (cases "x \<in> set xs")
    case True
    with in_xs show ?thesis by blast
  next
    case False
    with out_xs have "node_velocity m' x = node_velocity m1 x" by blast
    then show ?thesis by (simp add: m1 u)
  qed
  moreover have "\<forall>v. v \<notin> set (x # xs) \<longrightarrow> node_velocity m' v = node_velocity m v"
    using out_xs by (simp add: m1)
  ultimately show ?case using in_xs by simp
qed

lemma nodal_loop_total:
  "\<forall>v\<in>set vs. \<exists>u. nodal_velocity S bm m v = Inr u \<Longrightarrow>
     \<exists>m'. for_each vs (evaluate_nodal_vertex S bm) m = Inr m'"
proof (induction vs arbitrary: m)
  case Nil
  show ?case by simp
next
  case (Cons x xs)
  from Cons.prems obtain u where u: "nodal_velocity S bm m x = Inr u" by auto
  let ?m1 = "m\<lparr> node_velocity := (node_velocity m)(x := u) \<rparr>"
  have s: "evaluate_nodal_vertex S bm x m = Inr ?m1"
    using u by (simp add: evaluate_nodal_vertex_Inr)
  have "\<forall>v\<in>set xs. \<exists>u. nodal_velocity S bm ?m1 v = Inr u"
    using Cons.prems by (simp add: nodal_velocity_frame)
  from Cons.IH[OF this] obtain m' where "for_each xs (evaluate_nodal_vertex S bm) ?m1 = Inr m'" ..
  then show ?case by (simp add: s)
qed

text \<open>What \<open>find_prescribed_velocity\<close> returns.\<close>

lemma find_prescribed_velocity_Some:
  "find_prescribed_velocity bm tags = Inr (Some tag) \<Longrightarrow>
     tag \<in> set tags \<and> (\<exists>b. bm tag = Some b \<and> has_prescribed_velocity b)"
  by (induction tags) (auto simp: map_at_def split: option.splits sum.splits if_splits)

lemma find_prescribed_velocity_None:
  "find_prescribed_velocity bm tags = Inr None \<Longrightarrow>
     \<forall>tag\<in>set tags. \<exists>b. bm tag = Some b \<and> \<not> has_prescribed_velocity b"
  by (induction tags) (auto simp: map_at_def split: option.splits sum.splits if_splits)

lemma find_prescribed_velocity_first:
  "find_prescribed_velocity bm tags = Inr (Some tag) \<Longrightarrow>
     \<exists>before after. tags = before @ tag # after \<and>
       (\<forall>t\<in>set before. \<exists>b. bm t = Some b \<and> \<not> has_prescribed_velocity b)"
proof (induction tags)
  case Nil
  then show ?case by simp
next
  case (Cons t ts)
  from Cons.prems obtain b where b: "bm t = Some b"
    by (auto simp: map_at_def split: option.splits)
  show ?case
  proof (cases "has_prescribed_velocity b")
    case True
    with Cons.prems b have "tag = t" by (simp add: map_at_def)
    then have "t # ts = [] @ tag # ts \<and>
       (\<forall>t\<in>set []. \<exists>b. bm t = Some b \<and> \<not> has_prescribed_velocity b)" by simp
    then show ?thesis by (intro exI)
  next
    case False
    with Cons.prems b have "find_prescribed_velocity bm ts = Inr (Some tag)"
      by (simp add: map_at_def)
    from Cons.IH[OF this] obtain before after where
      "ts = before @ tag # after"
      "\<forall>t\<in>set before. \<exists>b. bm t = Some b \<and> \<not> has_prescribed_velocity b" by blast
    with b False have "t # ts = (t # before) @ tag # after \<and>
       (\<forall>t\<in>set (t # before). \<exists>b. bm t = Some b \<and> \<not> has_prescribed_velocity b)" by simp
    then show ?thesis by blast
  qed
qed

lemma nodal_velocity_prescribed:
  assumes "vertex_is_boundary m v"
    and "point_system m v = Inr Mr"
    and "find_prescribed_velocity bm (vertex_tags m v) = Inr (Some tag)"
    and "bm tag = Some b"
  shows "nodal_velocity S bm m v = Inr (velocity b (coordinates m v) (time m))"
  using assms
  by (simp add: nodal_velocity_def bind_result_def map_at_def split: prod.splits)

lemma nodal_velocity_prescribed_path:
  assumes "nodal_velocity S bm m v = Inr u"
    and "vertex_is_boundary m v"
    and "tag \<in> set (vertex_tags m v)" and "bm tag = Some b" and "has_prescribed_velocity b"
  shows "\<exists>Mr tag' b'. point_system m v = Inr Mr \<and>
           find_prescribed_velocity bm (vertex_tags m v) = Inr (Some tag') \<and> bm tag' = Some b'"
proof -
  from assms(1) obtain Mr where Mr: "point_system m v = Inr Mr"
    by (auto simp: nodal_velocity_def bind_result_Inr)
  from assms(1,2) Mr obtain r where r: "find_prescribed_velocity bm (vertex_tags m v) = Inr r"
    by (auto simp: nodal_velocity_def bind_result_Inr split: prod.splits)
  show ?thesis
  proof (cases r)
    case None
    with r find_prescribed_velocity_None[of bm "vertex_tags m v"] assms(3,4,5)
    show ?thesis by fastforce
  next
    case (Some tag')
    with r find_prescribed_velocity_Some[of bm "vertex_tags m v" tag'] Mr
    show ?thesis by blast
  qed
qed

text \<open>
  C6.  Let \<open>evaluate_nodal_state\<close> return, and let \<open>v\<close> be a boundary vertex of the mesh
  one of whose tags carries a prescribed-velocity condition.  Then the nodal velocity
  of \<open>v\<close> is the velocity callback of the first such tag of \<open>v\<close>, evaluated at the
  coordinates of \<open>v\<close> and the current time.  The value assigned at \<open>v\<close> is that one
  whatever the solvers are: neither the right-hand side nor a symmetry normal nor the
  solution of a linear system enters it.
\<close>

theorem evaluate_nodal_state_prescribed_velocity:
  assumes "evaluate_nodal_state S bm m = Inr m'"
    and "v \<in> set (vertices m)" and "vertex_is_boundary m v"
    and "tag \<in> set (vertex_tags m v)" and "bm tag = Some b" and "has_prescribed_velocity b"
  shows "\<exists>tag' b' before after.
           vertex_tags m v = before @ tag' # after \<and>
           (\<forall>t\<in>set before. \<exists>c. bm t = Some c \<and> \<not> has_prescribed_velocity c) \<and>
           bm tag' = Some b' \<and> has_prescribed_velocity b' \<and>
           node_velocity m' v = velocity b' (coordinates m v) (time m) \<and>
           (\<forall>S'. nodal_velocity S' bm m v = Inr (velocity b' (coordinates m v) (time m)))"
proof -
  from assms(1,2) have u: "nodal_velocity S bm m v = Inr (node_velocity m' v)"
    using nodal_loop_values by (simp add: evaluate_nodal_state_def)
  from nodal_velocity_prescribed_path[OF u assms(3-6)] obtain Mr tag' b' where
    Mr: "point_system m v = Inr Mr"
    and f: "find_prescribed_velocity bm (vertex_tags m v) = Inr (Some tag')"
    and b': "bm tag' = Some b'"
    by blast
  from find_prescribed_velocity_Some[OF f] b' have hv: "has_prescribed_velocity b'" by auto
  from find_prescribed_velocity_first[OF f] obtain before after where
    sp: "vertex_tags m v = before @ tag' # after"
      "\<forall>t\<in>set before. \<exists>c. bm t = Some c \<and> \<not> has_prescribed_velocity c" by blast
  have all: "nodal_velocity S' bm m v = Inr (velocity b' (coordinates m v) (time m))" for S'
    by (rule nodal_velocity_prescribed[OF assms(3) Mr f b'])
  with u have "node_velocity m' v = velocity b' (coordinates m v) (time m)" by simp
  with sp b' hv all show ?thesis by blast
qed

section \<open>The nodal solver: boundary wedges and symmetry normals\<close>

lemma for_each_append:
  "for_each (xs @ ys) f s = bind_result (for_each xs f s) (for_each ys f)"
  by (induction xs arbitrary: s) (simp_all add: bind_result_def split: sum.splits)

lemma for_each_map:
  "for_each (map g xs) f s = for_each xs (\<lambda>x. f (g x)) s"
  by (induction xs arbitrary: s) (simp_all split: sum.splits)

text \<open>The two nested loops over the boundary wedges and the tags of their faces.\<close>

lemma apply_wedge_resolved:
  assumes "faces_of_wedge m w \<noteq> []" and "cells_of_wedge m w \<noteq> []"
  shows "apply_wedge bm m w st =
           for_each (map (Pair w) (face_tags m (face_of m w))) (\<lambda>(w, t). apply_condition bm m w t) st"
  using assms
  by (simp add: apply_wedge_def front_hd bind_result_simps face_of_def for_each_map)

lemma wedge_loop_flat:
  assumes "\<forall>w\<in>set ws. faces_of_wedge m w \<noteq> [] \<and> cells_of_wedge m w \<noteq> []"
  shows "for_each ws (apply_wedge bm m) st =
           for_each (tagged_wedges m ws) (\<lambda>(w, t). apply_condition bm m w t) st"
  using assms
proof (induction ws arbitrary: st)
  case Nil
  show ?case by (simp add: tagged_wedges_def)
next
  case (Cons w ws)
  then have w: "faces_of_wedge m w \<noteq> []" "cells_of_wedge m w \<noteq> []"
    and ws: "\<forall>w\<in>set ws. faces_of_wedge m w \<noteq> [] \<and> cells_of_wedge m w \<noteq> []"
    by simp_all
  have split: "tagged_wedges m (w # ws) = map (Pair w) (face_tags m (face_of m w)) @ tagged_wedges m ws"
    by (simp add: tagged_wedges_def)
  show ?case
    unfolding split for_each_append
    by (simp add: apply_wedge_resolved[OF w] Cons.IH[OF ws] bind_result_def split: sum.splits)
qed

lemma apply_condition_resolved:
  assumes "bm t \<noteq> None"
  shows "\<exists>rhs'. apply_condition bm m w t (rhs, sn) = Inr (rhs', symmetry_step bm m (w, t) sn)"
proof -
  from assms obtain b where b: "bm t = Some b" by blast
  then have at: "map_at bm t = Inr b" by (simp add: map_at_def)
  show ?thesis
    by (cases "has_prescribed_pressure b"; cases "has_symmetry b"; cases "map_of sn t")
      (simp_all add: apply_condition_def at bind_result_simps Let_def
         symmetry_step_def symmetry_tag_def b)
qed

lemma condition_loop_resolved:
  assumes "\<forall>(w, t)\<in>set ps. bm t \<noteq> None"
  shows "\<exists>rhs'. for_each ps (\<lambda>(w, t). apply_condition bm m w t) (rhs, sn) =
           Inr (rhs', fold (symmetry_step bm m) ps sn)"
  using assms
proof (induction ps arbitrary: rhs sn)
  case Nil
  show ?case by simp
next
  case (Cons p ps)
  obtain w t where p: "p = (w, t)" by (cases p)
  with Cons.prems have t: "bm t \<noteq> None" and rest: "\<forall>(w, t)\<in>set ps. bm t \<noteq> None" by simp_all
  have "\<exists>rhs1. apply_condition bm m w t (rhs, sn) = Inr (rhs1, symmetry_step bm m (w, t) sn)"
    using t by (rule apply_condition_resolved)
  then obtain rhs1 where
    s: "apply_condition bm m w t (rhs, sn) = Inr (rhs1, symmetry_step bm m (w, t) sn)" by blast
  from Cons.IH[OF rest] obtain rhs' where
    "for_each ps (\<lambda>(w, t). apply_condition bm m w t) (rhs1, symmetry_step bm m (w, t) sn) =
       Inr (rhs', fold (symmetry_step bm m) ps (symmetry_step bm m (w, t) sn))" by blast
  then show ?case by (simp add: p s)
qed

lemma wedge_loop_resolved:
  assumes "\<forall>w\<in>set ws. faces_of_wedge m w \<noteq> [] \<and> cells_of_wedge m w \<noteq> [] \<and>
             (\<forall>t\<in>set (face_tags m (face_of m w)). bm t \<noteq> None)"
  shows "\<exists>rhs'. for_each ws (apply_wedge bm m) (rhs, []) =
           Inr (rhs', fold (symmetry_step bm m) (tagged_wedges m ws) [])"
proof -
  have "\<forall>(w, t)\<in>set (tagged_wedges m ws). bm t \<noteq> None"
    using assms by (auto simp: tagged_wedges_def)
  then have "\<exists>rhs'. for_each (tagged_wedges m ws) (\<lambda>(w, t). apply_condition bm m w t) (rhs, []) =
           Inr (rhs', fold (symmetry_step bm m) (tagged_wedges m ws) [])"
    by (rule condition_loop_resolved)
  moreover have "for_each ws (apply_wedge bm m) (rhs, []) =
           for_each (tagged_wedges m ws) (\<lambda>(w, t). apply_condition bm m w t) (rhs, [])"
    using assms by (intro wedge_loop_flat) blast
  ultimately show ?thesis by simp
qed

text \<open>The right-hand side and the symmetry normals the two loops return.\<close>

lemma apply_condition_value:
  assumes "bm t \<noteq> None"
  shows "apply_condition bm m w t (rhs, sn) =
           Inr (pressure_step bm m (w, t) rhs, symmetry_step bm m (w, t) sn)"
proof -
  from assms obtain b where b: "bm t = Some b" by blast
  then have at: "map_at bm t = Inr b" by (simp add: map_at_def)
  show ?thesis
    by (cases "has_prescribed_pressure b"; cases "has_symmetry b"; cases "map_of sn t")
      (simp_all add: apply_condition_def at bind_result_simps Let_def
         symmetry_step_def symmetry_tag_def pressure_step_def pressure_tag_def b)
qed

lemma condition_loop_value:
  assumes "\<forall>(w, t)\<in>set ps. bm t \<noteq> None"
  shows "for_each ps (\<lambda>(w, t). apply_condition bm m w t) (rhs, sn) =
           Inr (fold (pressure_step bm m) ps rhs, fold (symmetry_step bm m) ps sn)"
  using assms
proof (induction ps arbitrary: rhs sn)
  case Nil
  show ?case by simp
next
  case (Cons p ps)
  obtain w t where p: "p = (w, t)" by (cases p)
  with Cons.prems have t: "bm t \<noteq> None" and rest: "\<forall>(w, t)\<in>set ps. bm t \<noteq> None" by simp_all
  have s: "apply_condition bm m w t (rhs, sn) =
      Inr (pressure_step bm m (w, t) rhs, symmetry_step bm m (w, t) sn)"
    using t by (rule apply_condition_value)
  show ?case by (simp add: p s Cons.IH[OF rest])
qed

lemma wedge_loop_value:
  assumes "\<forall>w\<in>set ws. faces_of_wedge m w \<noteq> [] \<and> cells_of_wedge m w \<noteq> [] \<and>
             (\<forall>t\<in>set (face_tags m (face_of m w)). bm t \<noteq> None)"
  shows "for_each ws (apply_wedge bm m) (rhs, []) =
           Inr (fold (pressure_step bm m) (tagged_wedges m ws) rhs,
                fold (symmetry_step bm m) (tagged_wedges m ws) [])"
proof -
  have "\<forall>(w, t)\<in>set (tagged_wedges m ws). bm t \<noteq> None"
    using assms by (auto simp: tagged_wedges_def)
  then have "for_each (tagged_wedges m ws) (\<lambda>(w, t). apply_condition bm m w t) (rhs, []) =
           Inr (fold (pressure_step bm m) (tagged_wedges m ws) rhs,
                fold (symmetry_step bm m) (tagged_wedges m ws) [])"
    by (rule condition_loop_value)
  moreover have "for_each ws (apply_wedge bm m) (rhs, []) =
           for_each (tagged_wedges m ws) (\<lambda>(w, t). apply_condition bm m w t) (rhs, [])"
    using assms by (intro wedge_loop_flat) blast
  ultimately show ?thesis by simp
qed

lemma pressure_step_apply:
  "pressure_step bm m (w, t) rhs =
     (if pressure_tag bm t then
       map (\<lambda>d. rhs ! d - wedge_facet_area m w *
                    pressure (the (bm t)) (wedge_facet_centroid m w) (time m) *
                    wedge_facet_normal m w ! d) [0..<num_dimensions m]
     else rhs)"
  by (simp add: pressure_step_def)

lemma pressure_steps_length:
  "length rhs = num_dimensions m \<Longrightarrow> length (fold (pressure_step bm m) ps rhs) = num_dimensions m"
proof (induction ps arbitrary: rhs)
  case Nil
  then show ?case by simp
next
  case (Cons p ps)
  obtain w t where p: "p = (w, t)" by (cases p)
  have "length (pressure_step bm m (w, t) rhs) = num_dimensions m"
    using Cons.prems by (simp add: pressure_step_apply)
  from Cons.IH[OF this] show ?case by (simp add: p)
qed

lemma pressure_steps_nth:
  assumes "d < num_dimensions m"
  shows "fold (pressure_step bm m) ps rhs ! d =
     rhs ! d - (\<Sum>(w, t)\<leftarrow>filter (\<lambda>(w, t). pressure_tag bm t) ps.
                  wedge_facet_area m w * pressure (the (bm t)) (wedge_facet_centroid m w) (time m) *
                  wedge_facet_normal m w ! d)"
proof (induction ps arbitrary: rhs)
  case Nil
  show ?case by simp
next
  case (Cons p ps)
  obtain w t where p: "p = (w, t)" by (cases p)
  have one: "pressure_step bm m (w, t) rhs ! d =
      (if pressure_tag bm t
       then rhs ! d - wedge_facet_area m w * pressure (the (bm t)) (wedge_facet_centroid m w) (time m) *
                  wedge_facet_normal m w ! d
       else rhs ! d)"
    using assms by (simp add: pressure_step_apply)
  have "fold (pressure_step bm m) (p # ps) rhs ! d =
      fold (pressure_step bm m) ps (pressure_step bm m (w, t) rhs) ! d"
    by (simp add: p)
  also have "\<dots> = pressure_step bm m (w, t) rhs ! d -
      (\<Sum>(w, t)\<leftarrow>filter (\<lambda>(w, t). pressure_tag bm t) ps.
                  wedge_facet_area m w * pressure (the (bm t)) (wedge_facet_centroid m w) (time m) *
                  wedge_facet_normal m w ! d)"
    by (rule Cons.IH)
  finally show ?case
    unfolding one by (simp add: p)
qed

lemma tagged_wedges_sum:
  "(\<Sum>(w, t)\<leftarrow>filter (\<lambda>(w, t). P t) (tagged_wedges m ws). f w t) =
     (\<Sum>w\<leftarrow>ws. \<Sum>t\<leftarrow>filter P (face_tags m (face_of m w)). f w t)"
proof (induction ws)
  case Nil
  show ?case by (simp add: tagged_wedges_def)
next
  case (Cons w ws)
  have one: "(\<Sum>(w, t)\<leftarrow>filter (\<lambda>(w, t). P t) (map (Pair w) ts). f w t) =
      (\<Sum>t\<leftarrow>filter P ts. f w t)" for ts
    by (induction ts) simp_all
  have split: "tagged_wedges m (w # ws) = map (Pair w) (face_tags m (face_of m w)) @ tagged_wedges m ws"
    by (simp add: tagged_wedges_def)
  show ?case
    unfolding split by (simp add: one Cons.IH)
qed

text \<open>The map of the symmetry normals.\<close>

lemma map_of_map_store: "map_of (map_store k v sn) = (map_of sn)(k \<mapsto> v)"
  by (induction k v sn rule: map_store.induct) (auto simp: fun_eq_iff)

lemma keys_map_store: "set (map fst (map_store k v sn)) = insert k (set (map fst sn))"
  by (induction k v sn rule: map_store.induct) auto

lemma sorted_map_store:
  "sorted_wrt (<) (map fst sn) \<Longrightarrow> sorted_wrt (<) (map fst (map_store k v sn))"
proof (induction k v sn rule: map_store.induct)
  case (1 k v)
  show ?case by simp
next
  case (2 k v k' v' xs)
  then show ?case
    using keys_map_store[of k v xs] by (auto simp: less_imp_le)
qed

lemma sorted_symmetry_step:
  "sorted_wrt (<) (map fst sn) \<Longrightarrow> sorted_wrt (<) (map fst (symmetry_step bm m p sn))"
  by (cases p) (simp add: symmetry_step_def sorted_map_store)

lemma sorted_symmetry_steps:
  "sorted_wrt (<) (map fst sn) \<Longrightarrow> sorted_wrt (<) (map fst (fold (symmetry_step bm m) ps sn))"
  by (induction ps arbitrary: sn) (simp_all add: sorted_symmetry_step)

lemma symmetry_step_apply:
  "symmetry_step bm m (w, t) sn =
     (if symmetry_tag bm t then
        map_store t
          (case map_of sn t of
             Some tmp \<Rightarrow> map (\<lambda>d. tmp ! d + wedge_facet_area m w * wedge_facet_normal m w ! d)
                           [0..<num_dimensions m]
           | None \<Rightarrow> map (\<lambda>d. wedge_facet_area m w * wedge_facet_normal m w ! d)
                       [0..<num_dimensions m]) sn
      else sn)"
  by (simp add: symmetry_step_def)

lemma symmetry_steps_lookup:
  "map_of (fold (symmetry_step bm m) ps []) t =
     (if symmetry_tag bm t \<and> (\<exists>w. (w, t) \<in> set ps)
      then Some (map (\<lambda>d. \<Sum>w\<leftarrow>map fst (filter (\<lambda>p. snd p = t) ps).
                       wedge_facet_area m w * wedge_facet_normal m w ! d) [0..<num_dimensions m])
      else None)"
proof (induction ps arbitrary: t rule: rev_induct)
  case Nil
  show ?case by simp
next
  case (snoc p ps)
  obtain w t' where p: "p = (w, t')" by (cases p)
  let ?sn = "fold (symmetry_step bm m) ps []"
  have step: "fold (symmetry_step bm m) (ps @ [p]) [] = symmetry_step bm m (w, t') ?sn"
    by (simp add: p)
  show ?case
  proof (cases "symmetry_tag bm t'")
    case False
    then have "fold (symmetry_step bm m) (ps @ [p]) [] = ?sn"
      unfolding step by (simp only: symmetry_step_apply if_False)
    with False show ?thesis
      by (auto simp: snoc.IH p)
  next
    case True
    show ?thesis
    proof (cases "t = t'")
      case False
      have "map_of (fold (symmetry_step bm m) (ps @ [p]) []) t = map_of ?sn t"
        unfolding step using True False by (simp add: symmetry_step_apply map_of_map_store)
      then show ?thesis
        using False by (auto simp: snoc.IH p)
    next
      case same: True
      show ?thesis
      proof (cases "\<exists>w. (w, t') \<in> set ps")
        case False
        then have none: "filter (\<lambda>p. snd p = t') ps = []"
          by (auto simp: filter_empty_conv)
        from False have "map_of ?sn t' = None" by (simp add: snoc.IH)
        then have "map_of (fold (symmetry_step bm m) (ps @ [p]) []) t' =
            Some (map (\<lambda>d. wedge_facet_area m w * wedge_facet_normal m w ! d) [0..<num_dimensions m])"
          unfolding step using True by (simp add: symmetry_step_apply map_of_map_store)
        moreover have "\<exists>wa. (wa, t') \<in> set (ps @ [p])" by (auto simp: p)
        moreover have "map fst (filter (\<lambda>p. snd p = t') (ps @ [p])) = [w]"
          using none by (simp add: p)
        ultimately show ?thesis
          unfolding same using True by (simp del: fold_append set_append filter_append)
      next
        case ex: True
        then have "map_of ?sn t' =
            Some (map (\<lambda>d. \<Sum>w\<leftarrow>map fst (filter (\<lambda>p. snd p = t') ps).
                       wedge_facet_area m w * wedge_facet_normal m w ! d) [0..<num_dimensions m])"
          using True by (simp add: snoc.IH)
        then have "map_of (fold (symmetry_step bm m) (ps @ [p]) []) t' =
            Some (map (\<lambda>d. (\<Sum>w\<leftarrow>map fst (filter (\<lambda>p. snd p = t') ps).
                       wedge_facet_area m w * wedge_facet_normal m w ! d) +
                     wedge_facet_area m w * wedge_facet_normal m w ! d) [0..<num_dimensions m])"
          unfolding step using True
          by (simp add: symmetry_step_apply map_of_map_store cong: map_cong)
        moreover have "\<exists>wa. (wa, t') \<in> set (ps @ [p])" by (auto simp: p)
        moreover have "map fst (filter (\<lambda>p. snd p = t') (ps @ [p])) =
            map fst (filter (\<lambda>p. snd p = t') ps) @ [w]"
          by (simp add: p)
        ultimately show ?thesis
          unfolding same using True by (simp del: fold_append set_append filter_append)
      qed
    qed
  qed
qed

lemma tagged_wedges_of_tag:
  assumes "\<forall>w\<in>set ws. distinct (face_tags m (face_of m w))"
  shows "map fst (filter (\<lambda>p. snd p = t) (tagged_wedges m ws)) =
           filter (\<lambda>w. t \<in> set (face_tags m (face_of m w))) ws"
  using assms
proof (induction ws)
  case Nil
  show ?case by (simp add: tagged_wedges_def)
next
  case (Cons w ws)
  have one: "distinct ts \<Longrightarrow>
      map fst (filter (\<lambda>p. snd p = t) (map (Pair w) ts)) = (if t \<in> set ts then [w] else [])" for ts
    by (induction ts) auto
  from Cons show ?case
    by (simp add: tagged_wedges_def one)
qed

lemma tagged_wedges_member:
  "(\<exists>w. (w, t) \<in> set (tagged_wedges m ws)) \<longleftrightarrow> (\<exists>w\<in>set ws. t \<in> set (face_tags m (face_of m w)))"
  by (auto simp: tagged_wedges_def)

section \<open>The nodal solver: the system with symmetry constraints\<close>

lemma view_assign_square: "square A n \<Longrightarrow> square (view_assign A i j x) n"
  by (cases "i < length A") (auto simp: square_def view_assign_def nth_list_update)

lemma view_assign_nth:
  "square A n \<Longrightarrow> i < n \<Longrightarrow> j < n \<Longrightarrow> i' < n \<Longrightarrow> j' < n \<Longrightarrow>
   view_assign A i j x ! i' ! j' = (if i' = i \<and> j' = j then x else A ! i' ! j')"
  by (auto simp: square_def view_assign_def nth_list_update)

text \<open>One row, columns \<open>0..<r\<close>.\<close>

lemma row_fold:
  assumes "square A n" and "i < n" and "r \<le> n"
  shows "square (fold (\<lambda>j A. view_assign A i j (f j)) [0..<r] A) n \<and>
         (\<forall>i'<n. \<forall>j'<n. fold (\<lambda>j A. view_assign A i j (f j)) [0..<r] A ! i' ! j' =
            (if i' = i \<and> j' < r then f j' else A ! i' ! j'))"
  using assms(3)
proof (induction r)
  case 0
  show ?case using assms(1) by simp
next
  case (Suc r)
  let ?B = "fold (\<lambda>j A. view_assign A i j (f j)) [0..<r] A"
  from Suc have B: "square ?B n"
    and Bn: "\<forall>i'<n. \<forall>j'<n. ?B ! i' ! j' = (if i' = i \<and> j' < r then f j' else A ! i' ! j')"
    by simp_all
  have step: "fold (\<lambda>j A. view_assign A i j (f j)) [0..<Suc r] A = view_assign ?B i r (f r)"
    by simp
  have "r < n" using Suc.prems by simp
  show ?case
    unfolding step
    using view_assign_square[OF B] view_assign_nth[OF B assms(2) \<open>r < n\<close>] Bn
    by (auto simp: less_Suc_eq)
qed

text \<open>Rows \<open>0..<r\<close>, each over the columns \<open>0..<D\<close>.\<close>

lemma rows_fold:
  assumes "square A n" and "D \<le> n" and "r \<le> n"
  shows "square (fold (\<lambda>i A. fold (\<lambda>j A. view_assign A i j (g i j)) [0..<D] A) [0..<r] A) n \<and>
         (\<forall>i'<n. \<forall>j'<n.
            fold (\<lambda>i A. fold (\<lambda>j A. view_assign A i j (g i j)) [0..<D] A) [0..<r] A ! i' ! j' =
            (if i' < r \<and> j' < D then g i' j' else A ! i' ! j'))"
  using assms(3)
proof (induction r)
  case 0
  show ?case using assms(1) by simp
next
  case (Suc r)
  let ?B = "fold (\<lambda>i A. fold (\<lambda>j A. view_assign A i j (g i j)) [0..<D] A) [0..<r] A"
  from Suc have B: "square ?B n"
    and Bn: "\<forall>i'<n. \<forall>j'<n. ?B ! i' ! j' = (if i' < r \<and> j' < D then g i' j' else A ! i' ! j')"
    by simp_all
  have step: "fold (\<lambda>i A. fold (\<lambda>j A. view_assign A i j (g i j)) [0..<D] A) [0..<Suc r] A =
              fold (\<lambda>j A. view_assign A r j (g r j)) [0..<D] ?B"
    by simp
  have "r < n" using Suc.prems by simp
  from row_fold[OF B this assms(2), of "g r"] Bn show ?case
    unfolding step by (auto simp: less_Suc_eq)
qed

text \<open>One row, one column per entry of a list, with the running column index.\<close>

lemma column_counter_fold:
  assumes "square A n" and "i < n"
  shows "c + length xs \<le> n \<Longrightarrow>
         fst (fold (\<lambda>x (j, A). (j + 1, view_assign A i j (h x))) xs (c, A)) = c + length xs \<and>
         square (snd (fold (\<lambda>x (j, A). (j + 1, view_assign A i j (h x))) xs (c, A))) n \<and>
         (\<forall>i'<n. \<forall>j'<n.
            snd (fold (\<lambda>x (j, A). (j + 1, view_assign A i j (h x))) xs (c, A)) ! i' ! j' =
            (if i' = i \<and> c \<le> j' \<and> j' < c + length xs then h (xs ! (j' - c)) else A ! i' ! j'))"
proof (induction xs rule: rev_induct)
  case Nil
  show ?case using assms(1) by simp
next
  case (snoc x xs)
  let ?f = "\<lambda>x (j, A). (j + 1, view_assign A i j (h x))"
  let ?P = "fold ?f xs (c, A)"
  from snoc have len: "c + length xs < n" by simp
  with snoc.IH have j: "fst ?P = c + length xs" and B: "square (snd ?P) n"
    and Bn: "\<forall>i'<n. \<forall>j'<n. snd ?P ! i' ! j' =
       (if i' = i \<and> c \<le> j' \<and> j' < c + length xs then h (xs ! (j' - c)) else A ! i' ! j')"
    by simp_all
  have step: "fold ?f (xs @ [x]) (c, A) = (c + length xs + 1, view_assign (snd ?P) i (c + length xs) (h x))"
    using j by (simp add: case_prod_beta)
  show ?case
    unfolding step
    using view_assign_square[OF B] view_assign_nth[OF B assms(2) len] Bn
    by (auto simp: nth_append less_Suc_eq)
qed


text \<open>Rows \<open>0..<r\<close>, each with one column per entry of the list, from column \<open>c\<close> on.\<close>

lemma columns_fold:
  assumes "square A n" and "c + length xs \<le> n" and "r \<le> n"
  shows "square (fold (\<lambda>i A. snd (fold (\<lambda>x (j, A). (j + 1, view_assign A i j (h x i))) xs (c, A)))
                   [0..<r] A) n \<and>
         (\<forall>i'<n. \<forall>j'<n.
            fold (\<lambda>i A. snd (fold (\<lambda>x (j, A). (j + 1, view_assign A i j (h x i))) xs (c, A)))
              [0..<r] A ! i' ! j' =
            (if i' < r \<and> c \<le> j' \<and> j' < c + length xs then h (xs ! (j' - c)) i' else A ! i' ! j'))"
  using assms(3)
proof (induction r)
  case 0
  show ?case using assms(1) by simp
next
  case (Suc r)
  let ?F = "\<lambda>i A. snd (fold (\<lambda>x (j, A). (j + 1, view_assign A i j (h x i))) xs (c, A))"
  let ?B = "fold ?F [0..<r] A"
  from Suc have B: "square ?B n"
    and Bn: "\<forall>i'<n. \<forall>j'<n. ?B ! i' ! j' =
       (if i' < r \<and> c \<le> j' \<and> j' < c + length xs then h (xs ! (j' - c)) i' else A ! i' ! j')"
    by simp_all
  have step: "fold ?F [0..<Suc r] A = ?F r ?B"
    by simp
  have "r < n" using Suc.prems by simp
  from column_counter_fold[OF B this assms(2), of "\<lambda>x. h x r"] Bn show ?case
    unfolding step by (auto simp: less_Suc_eq)
qed

text \<open>One row per entry of a list, from row \<open>c\<close> on, each over the columns \<open>0..<D\<close>.\<close>

lemma row_counter_fold:
  assumes "square A n" and "D \<le> n"
  shows "c + length xs \<le> n \<Longrightarrow>
         square (snd (fold (\<lambda>x (i, A). (i + 1, fold (\<lambda>j A. view_assign A i j (h x j)) [0..<D] A))
                        xs (c, A))) n \<and>
         fst (fold (\<lambda>x (i, A). (i + 1, fold (\<lambda>j A. view_assign A i j (h x j)) [0..<D] A))
                xs (c, A)) = c + length xs \<and>
         (\<forall>i'<n. \<forall>j'<n.
            snd (fold (\<lambda>x (i, A). (i + 1, fold (\<lambda>j A. view_assign A i j (h x j)) [0..<D] A))
                   xs (c, A)) ! i' ! j' =
            (if c \<le> i' \<and> i' < c + length xs \<and> j' < D then h (xs ! (i' - c)) j' else A ! i' ! j'))"
proof (induction xs rule: rev_induct)
  case Nil
  show ?case using assms(1) by simp
next
  case (snoc x xs)
  let ?f = "\<lambda>x (i, A). (i + 1, fold (\<lambda>j A. view_assign A i j (h x j)) [0..<D] A)"
  let ?P = "fold ?f xs (c, A)"
  from snoc have len: "c + length xs < n" by simp
  with snoc.IH have i: "fst ?P = c + length xs" and B: "square (snd ?P) n"
    and Bn: "\<forall>i'<n. \<forall>j'<n. snd ?P ! i' ! j' =
       (if c \<le> i' \<and> i' < c + length xs \<and> j' < D then h (xs ! (i' - c)) j' else A ! i' ! j')"
    by simp_all
  have step: "fold ?f (xs @ [x]) (c, A) =
      (c + length xs + 1, fold (\<lambda>j A. view_assign A (c + length xs) j (h x j)) [0..<D] (snd ?P))"
    using i by (simp add: case_prod_beta)
  from row_fold[OF B len assms(2), of "h x"] Bn show ?case
    unfolding step by (auto simp: nth_append less_Suc_eq)
qed

lemma vector_copy_fold:
  "r \<le> length b \<Longrightarrow>
   length (fold (\<lambda>d b. b[d := rhs ! d]) [0..<r] b) = length b \<and>
   (\<forall>d<length b. fold (\<lambda>d b. b[d := rhs ! d]) [0..<r] b ! d = (if d < r then rhs ! d else b ! d))"
  by (induction r) (auto simp: nth_list_update less_Suc_eq)

text \<open>
  The system \<open>grow_system\<close> builds: \<open>Mp\<close> in the upper left block, the symmetry
  normals as the columns of the upper right block and as the rows of the lower left
  block, zero in the lower right block; \<open>rhs\<close> followed by zeros on the right.
\<close>

lemma grow_system_structure:
  assumes "grow_system D Mp rhs sn = (A, b)"
  shows "square A (D + length sn) \<and> length b = D + length sn \<and>
         (\<forall>i<D. \<forall>j<D. A ! i ! j = Mp ! i ! j) \<and>
         (\<forall>i<D. \<forall>c<length sn. A ! i ! (D + c) = snd (sn ! c) ! i) \<and>
         (\<forall>c<length sn. \<forall>j<D. A ! (D + c) ! j = snd (sn ! c) ! j) \<and>
         (\<forall>c<length sn. \<forall>c'<length sn. A ! (D + c) ! (D + c') = 0) \<and>
         (\<forall>d<D. b ! d = rhs ! d) \<and>
         (\<forall>c<length sn. b ! (D + c) = 0)"
proof -
  let ?n = "D + length sn"
  let ?A0 = "replicate ?n (replicate ?n (0::real))"
  let ?A1 = "fold (\<lambda>i A. fold (\<lambda>j A. view_assign A i j (Mp ! i ! j)) [0..<D] A) [0..<D] ?A0"
  let ?A2 = "fold (\<lambda>i A. snd (fold (\<lambda>n (j, A). (j + 1, view_assign A i j (snd n ! i))) sn (D, A)))
               [0..<D] ?A1"
  let ?A3 = "snd (fold (\<lambda>n (i, A). (i + 1, fold (\<lambda>j A. view_assign A i j (snd n ! j)) [0..<D] A))
               sn (D, ?A2))"
  let ?b = "fold (\<lambda>d b. b[d := rhs ! d]) [0..<D] (replicate ?n (0::real))"
  from assms have A: "A = ?A3" and b: "b = ?b"
    by (simp_all add: grow_system_def Let_def)
  have s0: "square ?A0 ?n" by (simp add: square_def)
  have e0: "\<forall>i'<?n. \<forall>j'<?n. ?A0 ! i' ! j' = 0" by simp
  have le: "D \<le> ?n" "D + length sn \<le> ?n" by simp_all
  from rows_fold[OF s0 le(1) le(1), of "\<lambda>i j. Mp ! i ! j"] e0
  have s1: "square ?A1 ?n"
    and e1: "\<forall>i'<?n. \<forall>j'<?n. ?A1 ! i' ! j' = (if i' < D \<and> j' < D then Mp ! i' ! j' else 0)"
    by simp_all
  from columns_fold[OF s1 le(2) le(1), of "\<lambda>n i. snd n ! i"] e1
  have s2: "square ?A2 ?n"
    and e2: "\<forall>i'<?n. \<forall>j'<?n. ?A2 ! i' ! j' =
       (if i' < D \<and> D \<le> j' \<and> j' < D + length sn then snd (sn ! (j' - D)) ! i'
        else if i' < D \<and> j' < D then Mp ! i' ! j' else 0)"
    by simp_all
  from row_counter_fold[OF s2 le(1) le(2), of "\<lambda>n j. snd n ! j"] e2
  have s3: "square ?A3 ?n"
    and e3: "\<forall>i'<?n. \<forall>j'<?n. ?A3 ! i' ! j' =
       (if D \<le> i' \<and> i' < D + length sn \<and> j' < D then snd (sn ! (i' - D)) ! j'
        else if i' < D \<and> D \<le> j' \<and> j' < D + length sn then snd (sn ! (j' - D)) ! i'
        else if i' < D \<and> j' < D then Mp ! i' ! j' else 0)"
    by simp_all
  from vector_copy_fold[of D "replicate ?n (0::real)" rhs]
  have lb: "length ?b = ?n"
    and eb: "\<forall>d<?n. ?b ! d = (if d < D then rhs ! d else 0)"
    by simp_all
  show ?thesis
    unfolding A b using s3 e3 lb eb by simp
qed

section \<open>The nodal solver: solving with symmetry constraints\<close>

lemma add_corner_resolved:
  "cells_of_corner m cn \<noteq> [] \<Longrightarrow> \<exists>Mr. add_corner m cn st = Inr Mr"
  by (cases st) (simp add: add_corner_def front_hd bind_result_simps Let_def)

lemma corner_loop_total:
  "\<forall>cn\<in>set cns. cells_of_corner m cn \<noteq> [] \<Longrightarrow> \<exists>Mr. for_each cns (add_corner m) st = Inr Mr"
proof (induction cns arbitrary: st)
  case Nil
  show ?case by simp
next
  case (Cons cn cns)
  then have "cells_of_corner m cn \<noteq> []" by simp
  then obtain st1 where s: "add_corner m cn st = Inr st1"
    using add_corner_resolved by blast
  from Cons have "\<exists>Mr. for_each cns (add_corner m) st1 = Inr Mr" by simp
  then show ?case by (simp add: s)
qed

lemma point_system_total:
  "\<forall>cn\<in>set (corners_of_vertex m v). cells_of_corner m cn \<noteq> [] \<Longrightarrow>
     \<exists>Mp rhs. point_system m v = Inr (Mp, rhs)"
  using corner_loop_total[of "corners_of_vertex m v" m] by (auto simp: point_system_def)

lemma find_prescribed_velocity_total:
  "\<forall>t\<in>set tags. bm t \<noteq> None \<Longrightarrow> \<exists>r. find_prescribed_velocity bm tags = Inr r"
  by (induction tags) (auto simp: map_at_def split: option.splits)

lemma find_prescribed_velocity_none:
  "\<forall>t\<in>set tags. bm t \<noteq> None \<Longrightarrow>
   \<forall>t\<in>set tags. \<forall>b. bm t = Some b \<longrightarrow> \<not> has_prescribed_velocity b \<Longrightarrow>
   find_prescribed_velocity bm tags = Inr None"
  by (induction tags) (auto simp: map_at_def split: option.splits)

text \<open>The value at a boundary vertex with no prescribed velocity.\<close>

lemma nodal_velocity_conditions:
  assumes "vertex_is_boundary m v"
    and "point_system m v = Inr (Mp, rhs0)"
    and "find_prescribed_velocity bm (vertex_tags m v) = Inr None"
    and "for_each (filter_boundary m (wedges_of_vertex m v)) (apply_wedge bm m) (rhs0, []) = Inr (rhs, sn)"
    and "grow_system (num_dimensions m) Mp rhs sn = (A, b)"
  shows "nodal_velocity S bm m v =
           (if sn = [] then Inr (solve S Mp rhs)
            else Inr (map (\<lambda>d. qr S A b ! d) [0..<num_dimensions m]))"
  using assms by (simp add: nodal_velocity_def bind_result_simps Let_def)

lemma nodal_velocity_total:
  assumes "vertex_resolved bm m v"
  shows "\<exists>u. nodal_velocity S bm m v = Inr u"
proof -
  from assms have cs: "\<forall>cn\<in>set (corners_of_vertex m v). cells_of_corner m cn \<noteq> []"
    and ts: "\<forall>t\<in>set (vertex_tags m v). bm t \<noteq> None"
    by (simp_all add: vertex_resolved_def)
  from point_system_total[OF cs] obtain Mp rhs0 where ps: "point_system m v = Inr (Mp, rhs0)"
    by blast
  show ?thesis
  proof (cases "vertex_is_boundary m v")
    case False
    with ps show ?thesis by (simp add: nodal_velocity_def bind_result_simps)
  next
    case True
    have "\<exists>r. find_prescribed_velocity bm (vertex_tags m v) = Inr r"
      using ts by (rule find_prescribed_velocity_total)
    then obtain r where r: "find_prescribed_velocity bm (vertex_tags m v) = Inr r" ..
    show ?thesis
    proof (cases r)
      case (Some tag)
      with r obtain c where "bm tag = Some c"
        using find_prescribed_velocity_Some by blast
      with True ps r Some show ?thesis
        using nodal_velocity_prescribed by blast
    next
      case None
      have "\<exists>rhs'. for_each (filter_boundary m (wedges_of_vertex m v)) (apply_wedge bm m) (rhs0, []) =
              Inr (rhs', fold (symmetry_step bm m)
                           (tagged_wedges m (filter_boundary m (wedges_of_vertex m v))) [])"
        using assms by (intro wedge_loop_resolved) (simp add: vertex_resolved_def)
      then obtain rhs sn where
        "for_each (filter_boundary m (wedges_of_vertex m v)) (apply_wedge bm m) (rhs0, []) = Inr (rhs, sn)"
        by blast
      moreover obtain A b where "grow_system (num_dimensions m) Mp rhs sn = (A, b)"
        by (cases "grow_system (num_dimensions m) Mp rhs sn")
      ultimately show ?thesis
        using nodal_velocity_conditions[OF True ps _ _ _, of bm rhs sn A b S] r None by auto
    qed
  qed
qed

lemma evaluate_nodal_state_total:
  "\<forall>v\<in>set (vertices m). vertex_resolved bm m v \<Longrightarrow> \<exists>m'. evaluate_nodal_state S bm m = Inr m'"
  unfolding evaluate_nodal_state_def
  by (rule nodal_loop_total) (simp add: nodal_velocity_total)

lemma sorted_keys_length:
  assumes "sorted_wrt (<) (map fst (sn :: symmetry_normals_t))"
  shows "length sn = card (set (map fst sn))"
proof -
  from assms have "distinct (map fst sn)"
    by (simp add: strict_sorted_iff)
  then have "card (set (map fst sn)) = length (map fst sn)"
    by (rule distinct_card)
  then show ?thesis by simp
qed

text \<open>The point matrix and the right-hand side are sums over the corners of the vertex.\<close>

lemma matrix_add_nth:
  "i < D \<Longrightarrow> j < D \<Longrightarrow> matrix_add D A B ! i ! j = A ! i ! j + B ! i ! j"
  by (simp add: matrix_add_def)

lemma ax_plus_y_nth:
  "i < D \<Longrightarrow> ax_plus_y D A x y ! i = y ! i + (\<Sum>j\<leftarrow>[0..<D]. A ! i ! j * x ! j)"
  by (simp add: ax_plus_y_def)

lemma add_corner_value:
  assumes "cells_of_corner m cn \<noteq> []"
  shows "add_corner m cn (Mp, rhs) =
     Inr (matrix_add (num_dimensions m) Mp (corner_matrix m cn),
          ax_plus_y (num_dimensions m) (corner_matrix m cn)
            (cell_velocity m (hd (cells_of_corner m cn)))
            (map (\<lambda>d. rhs ! d + cell_pressure m (hd (cells_of_corner m cn)) * corner_normal m cn ! d)
               [0..<num_dimensions m]))"
  using assms by (simp add: add_corner_def front_hd bind_result_simps Let_def)

lemma corner_loop_sums:
  assumes "\<forall>cn\<in>set cns. cells_of_corner m cn \<noteq> []"
  shows "\<exists>Mp rhs. for_each cns (add_corner m) (Mp0, rhs0) = Inr (Mp, rhs) \<and>
     (\<forall>i<num_dimensions m. \<forall>j<num_dimensions m.
        Mp ! i ! j = Mp0 ! i ! j + (\<Sum>cn\<leftarrow>cns. corner_matrix m cn ! i ! j)) \<and>
     (\<forall>d<num_dimensions m.
        rhs ! d = rhs0 ! d +
          (\<Sum>cn\<leftarrow>cns. cell_pressure m (hd (cells_of_corner m cn)) * corner_normal m cn ! d +
             (\<Sum>j\<leftarrow>[0..<num_dimensions m].
                corner_matrix m cn ! d ! j * cell_velocity m (hd (cells_of_corner m cn)) ! j)))"
  using assms
proof (induction cns arbitrary: Mp0 rhs0)
  case Nil
  show ?case by simp
next
  case (Cons cn cns)
  let ?D = "num_dimensions m"
  let ?Mp1 = "matrix_add ?D Mp0 (corner_matrix m cn)"
  let ?rhs1 = "ax_plus_y ?D (corner_matrix m cn) (cell_velocity m (hd (cells_of_corner m cn)))
            (map (\<lambda>d. rhs0 ! d + cell_pressure m (hd (cells_of_corner m cn)) * corner_normal m cn ! d)
               [0..<?D])"
  from Cons.prems have c: "cells_of_corner m cn \<noteq> []"
    and rest: "\<forall>cn\<in>set cns. cells_of_corner m cn \<noteq> []" by simp_all
  have step: "add_corner m cn (Mp0, rhs0) = Inr (?Mp1, ?rhs1)"
    by (rule add_corner_value[OF c])
  from Cons.IH[OF rest, of ?Mp1 ?rhs1] obtain Mp rhs where
    r: "for_each cns (add_corner m) (?Mp1, ?rhs1) = Inr (Mp, rhs)"
    and M: "\<forall>i<?D. \<forall>j<?D. Mp ! i ! j = ?Mp1 ! i ! j + (\<Sum>cn\<leftarrow>cns. corner_matrix m cn ! i ! j)"
    and R: "\<forall>d<?D. rhs ! d = ?rhs1 ! d +
          (\<Sum>cn\<leftarrow>cns. cell_pressure m (hd (cells_of_corner m cn)) * corner_normal m cn ! d +
             (\<Sum>j\<leftarrow>[0..<?D].
                corner_matrix m cn ! d ! j * cell_velocity m (hd (cells_of_corner m cn)) ! j))"
    by blast
  have "for_each (cn # cns) (add_corner m) (Mp0, rhs0) = Inr (Mp, rhs)"
    by (simp add: step r)
  moreover have "\<forall>i<?D. \<forall>j<?D.
      Mp ! i ! j = Mp0 ! i ! j + (\<Sum>cn\<leftarrow>cn # cns. corner_matrix m cn ! i ! j)"
    using M by (simp add: matrix_add_nth add.assoc)
  moreover have "\<forall>d<?D. rhs ! d = rhs0 ! d +
          (\<Sum>cn\<leftarrow>cn # cns. cell_pressure m (hd (cells_of_corner m cn)) * corner_normal m cn ! d +
             (\<Sum>j\<leftarrow>[0..<?D].
                corner_matrix m cn ! d ! j * cell_velocity m (hd (cells_of_corner m cn)) ! j))"
    using R by (simp add: ax_plus_y_nth add.assoc)
  ultimately show ?case by blast
qed

lemma point_system_sums:
  assumes "\<forall>cn\<in>set (corners_of_vertex m v). cells_of_corner m cn \<noteq> []"
  shows "\<exists>Mp rhs. point_system m v = Inr (Mp, rhs) \<and>
     (\<forall>i<num_dimensions m. \<forall>j<num_dimensions m.
        Mp ! i ! j = (\<Sum>cn\<leftarrow>corners_of_vertex m v. corner_matrix m cn ! i ! j)) \<and>
     (\<forall>d<num_dimensions m.
        rhs ! d =
          (\<Sum>cn\<leftarrow>corners_of_vertex m v.
             cell_pressure m (hd (cells_of_corner m cn)) * corner_normal m cn ! d +
             (\<Sum>j\<leftarrow>[0..<num_dimensions m].
                corner_matrix m cn ! d ! j * cell_velocity m (hd (cells_of_corner m cn)) ! j)))"
  using corner_loop_sums[OF assms, of "matrix_fill (num_dimensions m) 0" "vector_fill (num_dimensions m) 0"]
  by (simp add: point_system_def fill_nth)

text \<open>The right-hand side of the point system has one entry per dimension.\<close>

lemma corner_loop_length:
  assumes "for_each cns (add_corner m) (Mp0, rhs0) = Inr (Mp, rhs)"
    and "length rhs0 = num_dimensions m"
  shows "length rhs = num_dimensions m"
  using assms
proof (induction cns arbitrary: Mp0 rhs0)
  case Nil
  then show ?case by simp
next
  case (Cons cn cns)
  from Cons.prems(1) obtain Mp1 rhs1 where
    s: "add_corner m cn (Mp0, rhs0) = Inr (Mp1, rhs1)"
    and r: "for_each cns (add_corner m) (Mp1, rhs1) = Inr (Mp, rhs)"
    by (auto split: sum.splits)
  from s have "length rhs1 = num_dimensions m"
    by (auto simp: add_corner_def bind_result_Inr Let_def ax_plus_y_def)
  from Cons.IH[OF r this] show ?case .
qed

lemma point_system_length:
  assumes "point_system m v = Inr (Mp, rhs)"
  shows "length rhs = num_dimensions m"
  using corner_loop_length[OF assms[unfolded point_system_def]] by (simp add: vector_fill_def)

text \<open>
  C2.  Let nothing be able to fail at any vertex of the mesh, and let \<open>v\<close> be a
  boundary vertex of the mesh, none of whose tags prescribes the velocity, and whose
  boundary wedges have faces with tag sets (no tag twice).  Then
  \<open>evaluate_nodal_state\<close> returns a mesh \<open>m'\<close>, and the nodal velocity of \<open>v\<close> in
  \<open>m'\<close> is as follows.  The point matrix \<open>Mp\<close> is the sum of the corner matrices of
  \<open>v\<close> and the right-hand side starts as the sum of \<open>p\<^sub>c N + M u\<^sub>c\<close> over the corners
  of \<open>v\<close>.  The loop over the boundary wedges of \<open>v\<close> returns a right-hand side
  \<open>rhs\<close>, which is the starting one minus \<open>l\<^sub>w p n\<^sub>w\<close> for every boundary wedge and
  pressure tag of its face, and symmetry normals \<open>sn\<close> with exactly one entry per
  symmetry tag carried by the face of a boundary wedge of \<open>v\<close>, in the order of the
  tags; the entry of a tag is the sum of \<open>l\<^sub>w n\<^sub>w\<close> over the boundary wedges of \<open>v\<close>
  whose face carries the tag, so normals of different tags are kept apart.  With no
  entry, the nodal velocity of \<open>v\<close> in \<open>m'\<close> is \<open>solve S Mp rhs\<close>, the solution of
  the D x D system.  With \<open>k > 0\<close> entries it is the first D components of
  \<open>qr S A b\<close>, where \<open>A\<close> is the (D + k) x (D + k) matrix with \<open>Mp\<close> in the upper
  left block, the k normals as the columns of the upper right block and as the rows of
  the lower left block, and zero in the lower right block, and \<open>b\<close> is \<open>rhs\<close>
  followed by k zeros.
\<close>

theorem evaluate_nodal_state_symmetry:
  assumes "\<forall>u\<in>set (vertices m). vertex_resolved bm m u"
    and "v \<in> set (vertices m)" and "vertex_is_boundary m v"
    and "\<forall>t\<in>set (vertex_tags m v). \<forall>c. bm t = Some c \<longrightarrow> \<not> has_prescribed_velocity c"
    and "\<forall>w\<in>set (filter_boundary m (wedges_of_vertex m v)). distinct (face_tags m (face_of m w))"
  shows "\<exists>m' Mp rhs0 rhs sn A b.
     evaluate_nodal_state S bm m = Inr m' \<and>
     point_system m v = Inr (Mp, rhs0) \<and>
     (\<forall>i<num_dimensions m. \<forall>j<num_dimensions m.
        Mp ! i ! j = (\<Sum>cn\<leftarrow>corners_of_vertex m v. corner_matrix m cn ! i ! j)) \<and>
     (\<forall>d<num_dimensions m.
        rhs0 ! d =
          (\<Sum>cn\<leftarrow>corners_of_vertex m v.
             cell_pressure m (hd (cells_of_corner m cn)) * corner_normal m cn ! d +
             (\<Sum>j\<leftarrow>[0..<num_dimensions m].
                corner_matrix m cn ! d ! j * cell_velocity m (hd (cells_of_corner m cn)) ! j))) \<and>
     for_each (filter_boundary m (wedges_of_vertex m v)) (apply_wedge bm m) (rhs0, []) = Inr (rhs, sn) \<and>
     length rhs = num_dimensions m \<and>
     (\<forall>d<num_dimensions m.
        rhs ! d =
          rhs0 ! d -
          (\<Sum>w\<leftarrow>filter_boundary m (wedges_of_vertex m v).
             \<Sum>t\<leftarrow>filter (pressure_tag bm) (face_tags m (face_of m w)).
               wedge_facet_area m w * pressure (the (bm t)) (wedge_facet_centroid m w) (time m) *
               wedge_facet_normal m w ! d)) \<and>
     sorted_wrt (<) (map fst sn) \<and>
     set (map fst sn) =
       {t. symmetry_tag bm t \<and>
           (\<exists>w\<in>set (filter_boundary m (wedges_of_vertex m v)). t \<in> set (face_tags m (face_of m w)))} \<and>
     length sn =
       card {t. symmetry_tag bm t \<and>
           (\<exists>w\<in>set (filter_boundary m (wedges_of_vertex m v)). t \<in> set (face_tags m (face_of m w)))} \<and>
     (\<forall>t\<in>set (map fst sn).
        map_of sn t =
          Some (map (\<lambda>d. \<Sum>w\<leftarrow>filter (\<lambda>w. t \<in> set (face_tags m (face_of m w)))
                                  (filter_boundary m (wedges_of_vertex m v)).
                          wedge_facet_area m w * wedge_facet_normal m w ! d)
                  [0..<num_dimensions m])) \<and>
     (sn = [] \<longrightarrow>
        nodal_velocity S bm m v = Inr (solve S Mp rhs) \<and>
        node_velocity m' v = solve S Mp rhs) \<and>
     (sn \<noteq> [] \<longrightarrow>
        grow_system (num_dimensions m) Mp rhs sn = (A, b) \<and>
        square A (num_dimensions m + length sn) \<and> length b = num_dimensions m + length sn \<and>
        (\<forall>i<num_dimensions m. \<forall>j<num_dimensions m. A ! i ! j = Mp ! i ! j) \<and>
        (\<forall>i<num_dimensions m. \<forall>c<length sn. A ! i ! (num_dimensions m + c) = snd (sn ! c) ! i) \<and>
        (\<forall>c<length sn. \<forall>j<num_dimensions m. A ! (num_dimensions m + c) ! j = snd (sn ! c) ! j) \<and>
        (\<forall>c<length sn. \<forall>c'<length sn. A ! (num_dimensions m + c) ! (num_dimensions m + c') = 0) \<and>
        (\<forall>d<num_dimensions m. b ! d = rhs ! d) \<and>
        (\<forall>c<length sn. b ! (num_dimensions m + c) = 0) \<and>
        nodal_velocity S bm m v = Inr (map (\<lambda>d. qr S A b ! d) [0..<num_dimensions m]) \<and>
        node_velocity m' v = map (\<lambda>d. qr S A b ! d) [0..<num_dimensions m])"
proof -
  let ?bw = "filter_boundary m (wedges_of_vertex m v)"
  let ?D = "num_dimensions m"
  let ?sn = "fold (symmetry_step bm m) (tagged_wedges m ?bw) []"
  let ?T = "{t. symmetry_tag bm t \<and> (\<exists>w\<in>set ?bw. t \<in> set (face_tags m (face_of m w)))}"
  from assms(1,2) have res: "vertex_resolved bm m v" by simp
  from evaluate_nodal_state_total[OF assms(1)] obtain m' where
    run: "evaluate_nodal_state S bm m = Inr m'" by blast
  have stored: "nodal_velocity S bm m v = Inr (node_velocity m' v)"
    using nodal_loop_values[of "vertices m" S bm m m'] run assms(2)
    by (simp add: evaluate_nodal_state_def)
  from res have cs: "\<forall>cn\<in>set (corners_of_vertex m v). cells_of_corner m cn \<noteq> []"
    by (simp add: vertex_resolved_def)
  from point_system_sums[OF cs] obtain Mp rhs0 where ps: "point_system m v = Inr (Mp, rhs0)"
    and Ms: "\<forall>i<?D. \<forall>j<?D. Mp ! i ! j = (\<Sum>cn\<leftarrow>corners_of_vertex m v. corner_matrix m cn ! i ! j)"
    and Rs: "\<forall>d<?D. rhs0 ! d =
          (\<Sum>cn\<leftarrow>corners_of_vertex m v.
             cell_pressure m (hd (cells_of_corner m cn)) * corner_normal m cn ! d +
             (\<Sum>j\<leftarrow>[0..<?D].
                corner_matrix m cn ! d ! j * cell_velocity m (hd (cells_of_corner m cn)) ! j))"
    by blast
  define rhs where "rhs = fold (pressure_step bm m) (tagged_wedges m ?bw) rhs0"
  have fnd: "find_prescribed_velocity bm (vertex_tags m v) = Inr None"
    using res assms(4) by (intro find_prescribed_velocity_none) (simp_all add: vertex_resolved_def)
  have loop: "for_each ?bw (apply_wedge bm m) (rhs0, []) = Inr (rhs, ?sn)"
    unfolding rhs_def using res by (intro wedge_loop_value) (simp add: vertex_resolved_def)
  have rl: "length rhs = ?D"
    unfolding rhs_def by (rule pressure_steps_length) (rule point_system_length[OF ps])
  have rv: "\<forall>d<?D. rhs ! d = rhs0 ! d -
          (\<Sum>w\<leftarrow>?bw. \<Sum>t\<leftarrow>filter (pressure_tag bm) (face_tags m (face_of m w)).
               wedge_facet_area m w * pressure (the (bm t)) (wedge_facet_centroid m w) (time m) *
               wedge_facet_normal m w ! d)"
    unfolding rhs_def by (simp add: pressure_steps_nth tagged_wedges_sum)
  obtain A b where gs: "grow_system ?D Mp rhs ?sn = (A, b)"
    by (cases "grow_system ?D Mp rhs ?sn")
  have srt: "sorted_wrt (<) (map fst ?sn)"
    by (rule sorted_symmetry_steps) simp
  have look: "map_of ?sn t =
      (if t \<in> ?T
       then Some (map (\<lambda>d. \<Sum>w\<leftarrow>filter (\<lambda>w. t \<in> set (face_tags m (face_of m w))) ?bw.
                          wedge_facet_area m w * wedge_facet_normal m w ! d) [0..<?D])
       else None)" for t
    using tagged_wedges_member[of t m ?bw]
    by (simp add: symmetry_steps_lookup tagged_wedges_of_tag[OF assms(5)])
  have keys: "set (map fst ?sn) = ?T"
  proof -
    have "set (map fst ?sn) = dom (map_of ?sn)"
      by (simp add: dom_map_of_conv_image_fst)
    also have "\<dots> = ?T"
      by (auto simp: dom_def look split: if_splits)
    finally show ?thesis .
  qed
  have len: "length ?sn = card ?T"
    using sorted_keys_length[OF srt] keys by simp
  have vals: "\<forall>t\<in>set (map fst ?sn). map_of ?sn t =
      Some (map (\<lambda>d. \<Sum>w\<leftarrow>filter (\<lambda>w. t \<in> set (face_tags m (face_of m w))) ?bw.
                          wedge_facet_area m w * wedge_facet_normal m w ! d) [0..<?D])"
    unfolding keys using look by simp
  have nv: "nodal_velocity S bm m v =
           (if ?sn = [] then Inr (solve S Mp rhs)
            else Inr (map (\<lambda>d. qr S A b ! d) [0..<?D]))"
    by (rule nodal_velocity_conditions[OF assms(3) ps fnd loop gs])
  have direct: "?sn = [] \<longrightarrow>
      nodal_velocity S bm m v = Inr (solve S Mp rhs) \<and> node_velocity m' v = solve S Mp rhs"
    using nv nv[unfolded stored] by (auto split: if_splits)
  have grown: "?sn \<noteq> [] \<longrightarrow>
      nodal_velocity S bm m v = Inr (map (\<lambda>d. qr S A b ! d) [0..<?D]) \<and>
      node_velocity m' v = map (\<lambda>d. qr S A b ! d) [0..<?D]"
    using nv nv[unfolded stored] by (auto split: if_splits)
  from grow_system_structure[OF gs] run ps Ms Rs loop rl rv srt keys len vals direct grown gs
  show ?thesis
    by (intro exI[of _ m'] exI[of _ Mp] exI[of _ rhs0] exI[of _ rhs] exI[of _ ?sn]
          exI[of _ A] exI[of _ b]) simp
qed

section \<open>The nodal solver on the example mesh\<close>

lemma example_conditions_simps:
  "example_conditions 1 = Some symmetry_condition"
  "example_conditions (Suc 0) = Some symmetry_condition"
  "example_conditions 2 = Some pressure_condition"
  "example_conditions 3 = Some symmetry_condition"
  "example_conditions 4 = Some velocity_condition"
  "has_prescribed_velocity symmetry_condition = False"
  "has_prescribed_velocity velocity_condition = True"
  "velocity velocity_condition = (\<lambda>x t. [x ! 0 + 1, x ! 1 + t + 2])"
  by (simp_all add: example_conditions_def symmetry_condition_def velocity_condition_def)

lemma two_cells_boundary_wedges:
  "filter_boundary two_cells (wedges_of_vertex two_cells 0) = [0, 1]"
  "filter_boundary two_cells (wedges_of_vertex two_cells 1) = [2, 9]"
  "filter_boundary two_cells (wedges_of_vertex two_cells 2) = [10, 11]"
  "filter_boundary two_cells (wedges_of_vertex two_cells 3) = [6, 7]"
  "filter_boundary two_cells (wedges_of_vertex two_cells 4) = [5, 14]"
  "filter_boundary two_cells (wedges_of_vertex two_cells 5) = [12, 13]"
  by (simp_all add: filter_boundary_def two_cells_simps)

lemma two_cells_resolved:
  "\<forall>v\<in>set (vertices two_cells). vertex_resolved example_conditions two_cells v"
proof -
  have "vertex_resolved example_conditions two_cells 0"
    "vertex_resolved example_conditions two_cells 1"
    "vertex_resolved example_conditions two_cells 2"
    "vertex_resolved example_conditions two_cells 3"
    "vertex_resolved example_conditions two_cells 4"
    "vertex_resolved example_conditions two_cells 5"
    unfolding vertex_resolved_def two_cells_boundary_wedges
    by (simp_all add: face_of_def two_cells_simps example_conditions_simps)
  then show ?thesis by (simp add: two_cells_simps)
qed

text \<open>
  On the example mesh, vertex 3 at (0, 1) has the tags 3 (symmetry) and 4 (prescribed
  velocity \<open>(x + 1, y + t + 2)\<close>): at time 0 its nodal velocity is (1, 3).
\<close>

theorem evaluate_nodal_state_prescribed_velocity_witness:
  "\<exists>m'. evaluate_nodal_state example_solvers example_conditions two_cells = Inr m' \<and>
     vertex_tags two_cells 3 = [3, 4] \<and>
     node_velocity m' 3 = [1, 3]"
proof -
  from evaluate_nodal_state_total[OF two_cells_resolved] obtain m' where
    r: "evaluate_nodal_state example_solvers example_conditions two_cells = Inr m'" by blast
  have v: "3 \<in> set (vertices two_cells)" "vertex_is_boundary two_cells 3"
    "4 \<in> set (vertex_tags two_cells 3)" "example_conditions 4 = Some velocity_condition"
    "has_prescribed_velocity velocity_condition"
    by (simp_all add: two_cells_simps example_conditions_simps)
  from evaluate_nodal_state_prescribed_velocity[OF r v] obtain tag' b' before after where
    sp: "vertex_tags two_cells 3 = before @ tag' # after"
    and bf: "\<forall>t\<in>set before. \<exists>c. example_conditions t = Some c \<and> \<not> has_prescribed_velocity c"
    and b': "example_conditions tag' = Some b'" "has_prescribed_velocity b'"
    and u: "node_velocity m' 3 = velocity b' (coordinates two_cells 3) (time two_cells)"
    by blast
  have tags: "vertex_tags two_cells 3 = [3, 4]" by (simp add: two_cells_simps)
  from sp b' have "tag' = 4"
    unfolding tags by (auto simp: Cons_eq_append_conv example_conditions_simps)
  with b' have "b' = velocity_condition" by (simp add: example_conditions_simps)
  with u have "node_velocity m' 3 = [1, 3]"
    by (simp add: example_conditions_simps two_cells_simps)
  with r tags show ?thesis by blast
qed

text \<open>
  On the example mesh, vertex 2 is the lower right corner: its corner 5 belongs to
  cell 1, and its boundary wedges 10 and 11 lie on the bottom face (tag 1, normal
  (0, -1)) and on the right face (tag 2, normal (1, 0)), each of area 1/2.  With
  symmetry on every side the task returns; at vertex 2 there are two constraints, the
  system has 4 rows, and the nodal velocity is the first two components of what
  \<open>qr\<close> returns.  With a prescribed pressure 3 on every side the task returns; at
  vertex 2 there is no constraint, the pressure is taken off the right-hand side, and
  the nodal velocity is what \<open>solve\<close> returns.
\<close>

lemma corner_vertex_facts:
  "filter_boundary two_cells (wedges_of_vertex two_cells 2) = [10, 11]"
  "face_tags two_cells (face_of two_cells 10) = [1]"
  "face_tags two_cells (face_of two_cells 11) = [2]"
  "symmetry_tag symmetry_everywhere t"
  by (simp_all add: filter_boundary_def face_of_def two_cells_simps symmetry_tag_def
        symmetry_everywhere_def symmetry_condition_def)

lemma list_of_two: "length xs = 2 \<Longrightarrow> xs = [xs ! 0, xs ! 1]"
  by (auto simp: length_Suc_conv numeral_2_eq_2)

lemma all_less_two: "(\<forall>c<2. P c) \<longleftrightarrow> P 0 \<and> P (Suc 0)"
  by (auto simp: less_2_cases_iff)

lemma list_of_four: "length xs = 4 \<Longrightarrow> xs = [xs ! 0, xs ! 1, xs ! 2, xs ! 3]"
  by (auto simp: length_Suc_conv numeral_eq_Suc)

lemma corner_vertex_conditions:
  "pressure_tag symmetry_everywhere t = False"
  "symmetry_tag pressure_everywhere t = False"
  "pressure_tag pressure_everywhere t = True"
  "pressure (the (pressure_everywhere t)) = (\<lambda>x t. 3)"
  by (simp_all add: pressure_tag_def symmetry_tag_def symmetry_everywhere_def
        pressure_everywhere_def symmetry_condition_def pressure_condition_def)

lemma two_cells_resolved_symmetry:
  "\<forall>v\<in>set (vertices two_cells). vertex_resolved symmetry_everywhere two_cells v"
proof -
  have "vertex_resolved symmetry_everywhere two_cells 0"
    "vertex_resolved symmetry_everywhere two_cells 1"
    "vertex_resolved symmetry_everywhere two_cells 2"
    "vertex_resolved symmetry_everywhere two_cells 3"
    "vertex_resolved symmetry_everywhere two_cells 4"
    "vertex_resolved symmetry_everywhere two_cells 5"
    unfolding vertex_resolved_def two_cells_boundary_wedges
    by (simp_all add: face_of_def two_cells_simps symmetry_everywhere_def)
  then show ?thesis by (simp add: two_cells_simps)
qed

lemma two_cells_resolved_pressure:
  "\<forall>v\<in>set (vertices two_cells). vertex_resolved pressure_everywhere two_cells v"
proof -
  have "vertex_resolved pressure_everywhere two_cells 0"
    "vertex_resolved pressure_everywhere two_cells 1"
    "vertex_resolved pressure_everywhere two_cells 2"
    "vertex_resolved pressure_everywhere two_cells 3"
    "vertex_resolved pressure_everywhere two_cells 4"
    "vertex_resolved pressure_everywhere two_cells 5"
    unfolding vertex_resolved_def two_cells_boundary_wedges
    by (simp_all add: face_of_def two_cells_simps pressure_everywhere_def)
  then show ?thesis by (simp add: two_cells_simps)
qed

theorem evaluate_nodal_state_symmetry_witness:
  "(\<exists>m' Mp rhs0 rhs sn A b.
     evaluate_nodal_state example_solvers symmetry_everywhere two_cells = Inr m' \<and>
     point_system two_cells 2 = Inr (Mp, rhs0) \<and>
     for_each (filter_boundary two_cells (wedges_of_vertex two_cells 2))
       (apply_wedge symmetry_everywhere two_cells) (rhs0, []) = Inr (rhs, sn) \<and>
     rhs = [161 / 20, 139 / 20] \<and>
     sn = [(1, [0, - 1 / 2]), (2, [1 / 2, 0])] \<and>
     grow_system 2 Mp rhs sn = (A, b) \<and>
     A = [[2, 1, 0, 1 / 2], [1, 2, - 1 / 2, 0], [0, - 1 / 2, 0, 0], [1 / 2, 0, 0, 0]] \<and>
     b = [161 / 20, 139 / 20, 0, 0] \<and>
     node_velocity m' 2 = map (\<lambda>d. qr example_solvers A b ! d) [0..<2] \<and>
     node_velocity m' 2 = [161 / 40, 139 / 40]) \<and>
   (\<exists>m' Mp rhs0 rhs.
     evaluate_nodal_state example_solvers pressure_everywhere two_cells = Inr m' \<and>
     point_system two_cells 2 = Inr (Mp, rhs0) \<and>
     for_each (filter_boundary two_cells (wedges_of_vertex two_cells 2))
       (apply_wedge pressure_everywhere two_cells) (rhs0, []) = Inr (rhs, []) \<and>
     Mp ! 0 ! 0 = 2 \<and> Mp ! 1 ! 1 = 2 \<and>
     rhs = [131 / 20, 169 / 20] \<and>
     node_velocity m' 2 = solve example_solvers Mp rhs \<and>
     node_velocity m' 2 = [131 / 40, 169 / 40])"
proof -
  have vin: "2 \<in> set (vertices two_cells)"
    by (simp add: two_cells_simps)
  have bnd: "vertex_is_boundary two_cells 2"
    by (simp add: two_cells_simps)
  have nov: "\<forall>t\<in>set (vertex_tags two_cells 2). \<forall>c. symmetry_everywhere t = Some c \<longrightarrow>
      \<not> has_prescribed_velocity c"
    by (simp add: symmetry_everywhere_def symmetry_condition_def)
  have dst: "\<forall>w\<in>set (filter_boundary two_cells (wedges_of_vertex two_cells 2)).
      distinct (face_tags two_cells (face_of two_cells w))"
    unfolding corner_vertex_facts(1) by (simp add: corner_vertex_facts)
  have T: "{t. symmetry_tag symmetry_everywhere t \<and>
              (\<exists>w\<in>set (filter_boundary two_cells (wedges_of_vertex two_cells 2)).
                 t \<in> set (face_tags two_cells (face_of two_cells w)))} = {1, 2}"
    unfolding corner_vertex_facts(1) by (auto simp: corner_vertex_facts)
  have up: "[0..<2] = [0, 1::nat]" by (simp add: upt_rec)
  from evaluate_nodal_state_symmetry[OF two_cells_resolved_symmetry vin bnd nov dst,
      of example_solvers, unfolded T]
  have constrained: "\<exists>m' Mp rhs0 rhs sn A b.
     evaluate_nodal_state example_solvers symmetry_everywhere two_cells = Inr m' \<and>
     point_system two_cells 2 = Inr (Mp, rhs0) \<and>
     for_each (filter_boundary two_cells (wedges_of_vertex two_cells 2))
       (apply_wedge symmetry_everywhere two_cells) (rhs0, []) = Inr (rhs, sn) \<and>
     rhs = [161 / 20, 139 / 20] \<and>
     sn = [(1, [0, - 1 / 2]), (2, [1 / 2, 0])] \<and>
     grow_system 2 Mp rhs sn = (A, b) \<and>
     A = [[2, 1, 0, 1 / 2], [1, 2, - 1 / 2, 0], [0, - 1 / 2, 0, 0], [1 / 2, 0, 0, 0]] \<and>
     b = [161 / 20, 139 / 20, 0, 0] \<and>
     node_velocity m' 2 = map (\<lambda>d. qr example_solvers A b ! d) [0..<2] \<and>
     node_velocity m' 2 = [161 / 40, 139 / 40]"
  proof (elim exE conjE)
    fix m' Mp rhs0 rhs sn A b
    assume run: "evaluate_nodal_state example_solvers symmetry_everywhere two_cells = Inr m'"
      and ps: "point_system two_cells 2 = Inr (Mp, rhs0)"
      and Ms: "\<forall>i<num_dimensions two_cells. \<forall>j<num_dimensions two_cells.
          Mp ! i ! j = (\<Sum>cn\<leftarrow>corners_of_vertex two_cells 2. corner_matrix two_cells cn ! i ! j)"
      and Rs: "\<forall>d<num_dimensions two_cells.
          rhs0 ! d =
            (\<Sum>cn\<leftarrow>corners_of_vertex two_cells 2.
               cell_pressure two_cells (hd (cells_of_corner two_cells cn)) * corner_normal two_cells cn ! d +
               (\<Sum>j\<leftarrow>[0..<num_dimensions two_cells].
                  corner_matrix two_cells cn ! d ! j *
                  cell_velocity two_cells (hd (cells_of_corner two_cells cn)) ! j))"
      and loop: "for_each (filter_boundary two_cells (wedges_of_vertex two_cells 2))
         (apply_wedge symmetry_everywhere two_cells) (rhs0, []) = Inr (rhs, sn)"
      and rl: "length rhs = num_dimensions two_cells"
      and rv: "\<forall>d<num_dimensions two_cells.
          rhs ! d =
            rhs0 ! d -
            (\<Sum>w\<leftarrow>filter_boundary two_cells (wedges_of_vertex two_cells 2).
               \<Sum>t\<leftarrow>filter (pressure_tag symmetry_everywhere) (face_tags two_cells (face_of two_cells w)).
                 wedge_facet_area two_cells w *
                 pressure (the (symmetry_everywhere t)) (wedge_facet_centroid two_cells w) (time two_cells) *
                 wedge_facet_normal two_cells w ! d)"
      and srt: "sorted_wrt (<) (map fst sn)"
      and keys: "set (map fst sn) = {1, 2}"
      and len: "length sn = card {1::nat, 2}"
      and vals: "\<forall>t\<in>set (map fst sn).
          map_of sn t =
            Some (map (\<lambda>d. \<Sum>w\<leftarrow>filter (\<lambda>w. t \<in> set (face_tags two_cells (face_of two_cells w)))
                                    (filter_boundary two_cells (wedges_of_vertex two_cells 2)).
                            wedge_facet_area two_cells w * wedge_facet_normal two_cells w ! d)
                    [0..<num_dimensions two_cells])"
      and sys: "sn \<noteq> [] \<longrightarrow>
          grow_system (num_dimensions two_cells) Mp rhs sn = (A, b) \<and>
          square A (num_dimensions two_cells + length sn) \<and>
          length b = num_dimensions two_cells + length sn \<and>
          (\<forall>i<num_dimensions two_cells. \<forall>j<num_dimensions two_cells. A ! i ! j = Mp ! i ! j) \<and>
          (\<forall>i<num_dimensions two_cells. \<forall>c<length sn.
             A ! i ! (num_dimensions two_cells + c) = snd (sn ! c) ! i) \<and>
          (\<forall>c<length sn. \<forall>j<num_dimensions two_cells.
             A ! (num_dimensions two_cells + c) ! j = snd (sn ! c) ! j) \<and>
          (\<forall>c<length sn. \<forall>c'<length sn.
             A ! (num_dimensions two_cells + c) ! (num_dimensions two_cells + c') = 0) \<and>
          (\<forall>d<num_dimensions two_cells. b ! d = rhs ! d) \<and>
          (\<forall>c<length sn. b ! (num_dimensions two_cells + c) = 0) \<and>
          nodal_velocity example_solvers symmetry_everywhere two_cells 2 =
            Inr (map (\<lambda>d. qr example_solvers A b ! d) [0..<num_dimensions two_cells]) \<and>
          node_velocity m' 2 = map (\<lambda>d. qr example_solvers A b ! d) [0..<num_dimensions two_cells]"
    from len have len2: "length sn = 2" by simp
    then have ne: "sn \<noteq> []" by auto
    have D: "num_dimensions two_cells = 2" by (simp add: two_cells_simps)
    from keys have in1: "1 \<in> set (map fst sn)" and in2: "2 \<in> set (map fst sn)"
      by simp_all
    have v1: "map_of sn 1 = Some [0, - 1 / 2]"
      using bspec[OF vals in1] unfolding corner_vertex_facts(1)
      by (simp add: face_of_def two_cells_simps up)
    have v2: "map_of sn 2 = Some [1 / 2, 0]"
      using bspec[OF vals in2] unfolding corner_vertex_facts(1)
      by (simp add: face_of_def two_cells_simps up)
    have sn2: "sn = [sn ! 0, sn ! 1]"
      using len2 by (rule list_of_two)
    obtain k0 n0 k1 n1 where e: "sn ! 0 = (k0, n0)" "sn ! 1 = (k1, n1)"
      by (cases "sn ! 0"; cases "sn ! 1") blast
    have sn': "sn = [(k0, n0), (k1, n1)]"
      using sn2 e by simp
    from srt keys have k: "k0 = 1" "k1 = 2"
      unfolding sn' by (auto simp: doubleton_eq_iff)
    from v1 v2 have sn_eq: "sn = [(1, [0, - 1 / 2]), (2, [1 / 2, 0])]"
      unfolding sn' k by simp
    have r0: "rhs0 ! 0 = 161 / 20" "rhs0 ! 1 = 139 / 20"
      using Rs unfolding D by (simp_all add: two_cells_simps up)
    have r: "rhs ! 0 = 161 / 20" "rhs ! 1 = 139 / 20"
      using rv r0 unfolding D corner_vertex_facts(1)
      by (simp_all add: corner_vertex_conditions)
    from rl have "rhs = [rhs ! 0, rhs ! 1]"
      unfolding D by (rule list_of_two)
    then have rhs_eq: "rhs = [161 / 20, 139 / 20]"
      unfolding r .
    from sys ne len2 have gs: "grow_system 2 Mp rhs sn = (A, b)"
      and sq: "square A 4"
      and ul: "\<forall>i<2. \<forall>j<2. A ! i ! j = Mp ! i ! j"
      and ur: "\<forall>i<2. \<forall>c<2. A ! i ! (2 + c) = snd (sn ! c) ! i"
      and ll: "\<forall>c<2. \<forall>j<2. A ! (2 + c) ! j = snd (sn ! c) ! j"
      and lr: "\<forall>c<2. \<forall>c'<2. A ! (2 + c) ! (2 + c') = 0"
      and lb: "length b = 4"
      and b01: "\<forall>d<2. b ! d = rhs ! d"
      and b23: "\<forall>c<2. b ! (2 + c) = 0"
      and nv: "node_velocity m' 2 = map (\<lambda>d. qr example_solvers A b ! d) [0..<2]"
      unfolding D by simp_all
    from b01 r have b0: "b ! 0 = 161 / 20" "b ! 1 = 139 / 20" by simp_all
    have b2: "b ! 2 = 0" "b ! 3 = 0"
      using spec[OF b23, of 0] spec[OF b23, of 1] by simp_all
    have "b = [b ! 0, b ! 1, b ! 2, b ! 3]"
      using lb by (rule list_of_four)
    then have b_eq: "b = [161 / 20, 139 / 20, 0, 0]"
      unfolding b0 b2 .
    have val: "node_velocity m' 2 = [161 / 40, 139 / 40]"
      unfolding nv b_eq by (simp add: example_solvers_def up)
    have M: "Mp ! 0 ! 0 = 2" "Mp ! 0 ! 1 = 1" "Mp ! 1 ! 0 = 1" "Mp ! 1 ! 1 = 2"
      using Ms unfolding D by (simp_all add: two_cells_simps)
    have s0: "snd (sn ! 0) = [0, - 1 / 2]" and s1: "snd (sn ! 1) = [1 / 2, 0]"
      unfolding sn_eq by simp_all
    have A0: "A ! 0 ! 0 = 2" "A ! 0 ! 1 = 1" "A ! 0 ! 2 = 0" "A ! 0 ! 3 = 1 / 2"
      using spec[OF ul, of 0] spec[OF ur, of 0] s0 s1 M
      by (simp_all add: all_less_two numeral_2_eq_2 numeral_3_eq_3)
    have A1: "A ! 1 ! 0 = 1" "A ! 1 ! 1 = 2" "A ! 1 ! 2 = - 1 / 2" "A ! 1 ! 3 = 0"
      using spec[OF ul, of 1] spec[OF ur, of 1] s0 s1 M
      by (simp_all add: all_less_two numeral_2_eq_2 numeral_3_eq_3)
    have A2: "A ! 2 ! 0 = 0" "A ! 2 ! 1 = - 1 / 2" "A ! 2 ! 2 = 0" "A ! 2 ! 3 = 0"
      using spec[OF ll, of 0] spec[OF lr, of 0] s0 s1
      by (simp_all add: all_less_two numeral_2_eq_2 numeral_3_eq_3)
    have A3: "A ! 3 ! 0 = 1 / 2" "A ! 3 ! 1 = 0" "A ! 3 ! 2 = 0" "A ! 3 ! 3 = 0"
      using spec[OF ll, of 1] spec[OF lr, of 1] s0 s1
      by (simp_all add: all_less_two numeral_2_eq_2 numeral_3_eq_3)
    from sq have lA: "length A = 4" "length (A ! 0) = 4" "length (A ! 1) = 4"
      "length (A ! 2) = 4" "length (A ! 3) = 4"
      by (simp_all add: square_def)
    have "A = [A ! 0, A ! 1, A ! 2, A ! 3]"
      using lA(1) by (rule list_of_four)
    also have "A ! 0 = [2, 1, 0, 1 / 2]"
      using list_of_four[OF lA(2)] unfolding A0 .
    also have "A ! 1 = [1, 2, - 1 / 2, 0]"
      using list_of_four[OF lA(3)] unfolding A1 .
    also have "A ! 2 = [0, - 1 / 2, 0, 0]"
      using list_of_four[OF lA(4)] unfolding A2 .
    also have "A ! 3 = [1 / 2, 0, 0, 0]"
      using list_of_four[OF lA(5)] unfolding A3 .
    finally have A_eq: "A = [[2, 1, 0, 1 / 2], [1, 2, - 1 / 2, 0], [0, - 1 / 2, 0, 0], [1 / 2, 0, 0, 0]]" .
    from run ps loop rhs_eq sn_eq gs A_eq b_eq nv val show ?thesis
      by (intro exI[of _ m'] exI[of _ Mp] exI[of _ rhs0] exI[of _ rhs] exI[of _ sn]
            exI[of _ A] exI[of _ b]) simp
  qed
  have novP: "\<forall>t\<in>set (vertex_tags two_cells 2). \<forall>c. pressure_everywhere t = Some c \<longrightarrow>
      \<not> has_prescribed_velocity c"
    by (simp add: pressure_everywhere_def pressure_condition_def)
  have TP: "{t. symmetry_tag pressure_everywhere t \<and>
              (\<exists>w\<in>set (filter_boundary two_cells (wedges_of_vertex two_cells 2)).
                 t \<in> set (face_tags two_cells (face_of two_cells w)))} = {}"
    by (simp add: corner_vertex_conditions)
  from evaluate_nodal_state_symmetry[OF two_cells_resolved_pressure vin bnd novP dst,
      of example_solvers, unfolded TP]
  have direct: "\<exists>m' Mp rhs0 rhs.
     evaluate_nodal_state example_solvers pressure_everywhere two_cells = Inr m' \<and>
     point_system two_cells 2 = Inr (Mp, rhs0) \<and>
     for_each (filter_boundary two_cells (wedges_of_vertex two_cells 2))
       (apply_wedge pressure_everywhere two_cells) (rhs0, []) = Inr (rhs, []) \<and>
     Mp ! 0 ! 0 = 2 \<and> Mp ! 1 ! 1 = 2 \<and>
     rhs = [131 / 20, 169 / 20] \<and>
     node_velocity m' 2 = solve example_solvers Mp rhs \<and>
     node_velocity m' 2 = [131 / 40, 169 / 40]"
  proof (elim exE conjE)
    fix m' Mp rhs0 rhs sn A b
    assume run: "evaluate_nodal_state example_solvers pressure_everywhere two_cells = Inr m'"
      and ps: "point_system two_cells 2 = Inr (Mp, rhs0)"
      and Ms: "\<forall>i<num_dimensions two_cells. \<forall>j<num_dimensions two_cells.
          Mp ! i ! j = (\<Sum>cn\<leftarrow>corners_of_vertex two_cells 2. corner_matrix two_cells cn ! i ! j)"
      and Rs: "\<forall>d<num_dimensions two_cells.
          rhs0 ! d =
            (\<Sum>cn\<leftarrow>corners_of_vertex two_cells 2.
               cell_pressure two_cells (hd (cells_of_corner two_cells cn)) * corner_normal two_cells cn ! d +
               (\<Sum>j\<leftarrow>[0..<num_dimensions two_cells].
                  corner_matrix two_cells cn ! d ! j *
                  cell_velocity two_cells (hd (cells_of_corner two_cells cn)) ! j))"
      and loop: "for_each (filter_boundary two_cells (wedges_of_vertex two_cells 2))
         (apply_wedge pressure_everywhere two_cells) (rhs0, []) = Inr (rhs, sn)"
      and rl: "length rhs = num_dimensions two_cells"
      and rv: "\<forall>d<num_dimensions two_cells.
          rhs ! d =
            rhs0 ! d -
            (\<Sum>w\<leftarrow>filter_boundary two_cells (wedges_of_vertex two_cells 2).
               \<Sum>t\<leftarrow>filter (pressure_tag pressure_everywhere) (face_tags two_cells (face_of two_cells w)).
                 wedge_facet_area two_cells w *
                 pressure (the (pressure_everywhere t)) (wedge_facet_centroid two_cells w) (time two_cells) *
                 wedge_facet_normal two_cells w ! d)"
      and keys: "set (map fst sn) = {}"
      and sol: "sn = [] \<longrightarrow>
          nodal_velocity example_solvers pressure_everywhere two_cells 2 =
            Inr (solve example_solvers Mp rhs) \<and>
          node_velocity m' 2 = solve example_solvers Mp rhs"
    from keys have sn: "sn = []" by simp
    have D: "num_dimensions two_cells = 2" by (simp add: two_cells_simps)
    have M: "Mp ! 0 ! 0 = 2" "Mp ! 1 ! 1 = 2"
      using Ms unfolding D by (simp_all add: two_cells_simps)
    have r0: "rhs0 ! 0 = 161 / 20" "rhs0 ! 1 = 139 / 20"
      using Rs unfolding D by (simp_all add: two_cells_simps up)
    have r: "rhs ! 0 = 131 / 20" "rhs ! 1 = 169 / 20"
      using rv r0 unfolding D corner_vertex_facts(1)
      by (simp_all add: corner_vertex_conditions face_of_def two_cells_simps)
    from rl have "rhs = [rhs ! 0, rhs ! 1]"
      unfolding D by (rule list_of_two)
    then have rhs_eq: "rhs = [131 / 20, 169 / 20]"
      unfolding r .
    from sol sn have nv: "node_velocity m' 2 = solve example_solvers Mp rhs"
      by simp
    have val: "node_velocity m' 2 = [131 / 40, 169 / 40]"
      unfolding nv rhs_eq using M by (simp add: example_solvers_def up)
    from run ps loop[unfolded sn] M rhs_eq nv val show ?thesis
      by (intro exI[of _ m'] exI[of _ Mp] exI[of _ rhs0] exI[of _ rhs]) simp
  qed
  from constrained direct show ?thesis by (rule conjI)
qed

end
